theory Spec2Isabelle
  imports
    Complex_Main
    "HOL-Library.Option_ord"
    "HOL-Library.Product_Lexorder"
    "HOL-Library.List_Lexorder"
    "HOL-Library.Char_ord"
begin

section \<open>Identifier normalizer\<close>

text \<open>
  The sidebar route derives the storage name of a table from the name the user typed
  (src/app/api/sidebar/route.ts, lines 52 to 55):
  \<^verbatim>\<open>name.toLowerCase().replace(/\s+/g, "_").replace(/[^a-z0-9_]/g, "")\<close>.
  A string is a list of 8-bit characters. \<open>toLowerCase\<close> is modelled on the ASCII
  letters; the white space of \<open>\s\<close> is the ASCII white space (space, tab, line feed,
  vertical tab, form feed, carriage return).
\<close>

definition char_code :: "char \<Rightarrow> nat" where
  "char_code c = of_char c"

definition lower_char :: "char \<Rightarrow> char" where
  "lower_char c =
     (if char_code CHR ''A'' \<le> char_code c \<and> char_code c \<le> char_code CHR ''Z''
      then char_of (char_code c + 32) else c)"

definition toLowerCase :: "string \<Rightarrow> string" where
  "toLowerCase s = map lower_char s"

definition is_space :: "char \<Rightarrow> bool" where
  "is_space c = (c \<in> set [CHR '' '', CHR 0x09, CHR 0x0A, CHR 0x0B, CHR 0x0C, CHR 0x0D])"

text \<open>\<open>replace(/\s+/g, "_")\<close>: every maximal run of white space becomes one underscore.
  The flag says whether the previous character belonged to a run already replaced.\<close>

fun replace_ws_runs :: "bool \<Rightarrow> string \<Rightarrow> string" where
  "replace_ws_runs in_run [] = []"
| "replace_ws_runs in_run (c # cs) =
     (if is_space c
      then (if in_run then replace_ws_runs True cs else CHR ''_'' # replace_ws_runs True cs)
      else c # replace_ws_runs False cs)"

definition is_ident_char :: "char \<Rightarrow> bool" where
  "is_ident_char c =
     ((char_code CHR ''a'' \<le> char_code c \<and> char_code c \<le> char_code CHR ''z'') \<or>
      (char_code CHR ''0'' \<le> char_code c \<and> char_code c \<le> char_code CHR ''9'') \<or>
      c = CHR ''_'')"

text \<open>\<open>replace(/[^a-z0-9_]/g, "")\<close>\<close>

definition strip_non_ident :: "string \<Rightarrow> string" where
  "strip_non_ident s = filter is_ident_char s"

definition normalize_name :: "string \<Rightarrow> string" where
  "normalize_name name = strip_non_ident (replace_ws_runs False (toLowerCase name))"

section \<open>The relational store\<close>

text \<open>
  The four relations of src/lib/database.ts (interfaces at lines 9 to 50, schema in
  \<open>initializeTables\<close>, lines 55 to 110). Ids are the integers of the \<open>SERIAL\<close>
  columns; \<open>parent_id\<close> is nullable; timestamps are kept where an operation below
  writes them (\<open>table_columns\<close>, \<open>table_data\<close>) as readings of a clock.
\<close>

datatype item_type = Folder | Table

record sidebar_item =
  si_id :: int
  si_name :: string
  si_parent_id :: "int option"
  si_item_type :: item_type
  si_icon :: "string option"
  si_sort_order :: int

record dynamic_table =
  dt_id :: int
  dt_sidebar_item_id :: int
  dt_table_name :: string
  dt_display_name :: string
  dt_description :: "string option"

datatype data_type = TText | TNumber | TDate | TBoolean | TDecimal | TDouble | TCheckbox

record table_column =
  col_id :: int
  col_table_id :: int
  col_column_name :: string
  col_display_name :: string
  col_data_type :: data_type
  col_is_required :: bool
  col_default_value :: "string option"
  col_sort_order :: int
  col_width :: int
  col_created_at :: nat
  col_updated_at :: nat

text \<open>A JSON value as it is stored in \<open>row_data\<close>, and the object that holds such values
  under its keys: a key the object does not hold is \<open>None\<close> of the lookup.\<close>

datatype js_value = JNull | JBool bool | JNum real | JStr string

type_synonym row_data = "string \<rightharpoonup> js_value"

record table_data =
  row_id :: int
  row_table_id :: int
  row_row_data :: row_data
  row_created_at :: nat
  row_updated_at :: nat

record db =
  sidebar_items :: "sidebar_item list"
  dynamic_tables :: "dynamic_table list"
  table_columns :: "table_column list"
  table_data :: "table_data list"
  next_sidebar_id :: int
  next_table_id :: int
  next_row_id :: int

text \<open>What an operation throws: an \<open>Error\<close> of the service itself with its message, or
  what the store reports: the violation of a constraint, or a value that the type of a
  column refuses.\<close>

datatype error =
    Error string
  | TableNotFound int
  | UniqueViolation string
  | ForeignKeyViolation string
  | CheckViolation string
  | UnsupportedUnicodeEscape string

subsection \<open>DELETE with the schema's ON DELETE CASCADE\<close>

text \<open>
  Every foreign key of the schema is declared \<open>ON DELETE CASCADE\<close>
  (\<open>sidebar_items.parent_id\<close>, \<open>dynamic_tables.sidebar_item_id\<close>,
  \<open>table_columns.table_id\<close>, \<open>table_data.table_id\<close>). Deleting sidebar items
  therefore removes, round after round, the items whose parent was removed.
\<close>

definition child_of :: "int list \<Rightarrow> sidebar_item \<Rightarrow> bool" where
  "child_of ids i = (case si_parent_id i of None \<Rightarrow> False | Some p \<Rightarrow> p \<in> set ids)"

function remove_cascade :: "int list \<Rightarrow> sidebar_item list \<Rightarrow> sidebar_item list" where
  "remove_cascade ids items =
     (let rest = filter (\<lambda>i. si_id i \<notin> set ids) items;
          kids = filter (child_of ids) rest
      in if kids = [] then rest else remove_cascade (map si_id kids) rest)"
  by pat_completeness auto
termination
proof (relation "measure (\<lambda>(ids, items). length (filter (\<lambda>i. si_id i \<notin> set ids) items))", goal_cases)
  case 1
  show ?case by simp
next
  case (2 ids items rest kids)
  from 2(3) obtain k where "k \<in> set kids"
    by (cases kids) auto
  with 2(2) have k: "k \<in> set rest" "k \<in> set kids"
    by auto
  then have "length (filter (\<lambda>i. si_id i \<notin> set (map si_id kids)) rest) < length rest"
    by (intro length_filter_less[of k]) auto
  moreover have "length rest \<le> length items"
    using 2(1) by simp
  ultimately show ?case
    using 2(1) by simp
qed

declare remove_cascade.simps [simp del]

text \<open>\<open>DELETE FROM dynamic_tables WHERE p\<close>: the columns and rows of a deleted table go
  with it.\<close>

definition sql_delete_dynamic_tables :: "(dynamic_table \<Rightarrow> bool) \<Rightarrow> db \<Rightarrow> db" where
  "sql_delete_dynamic_tables p d =
     (let gone = map dt_id (filter p (dynamic_tables d))
      in d\<lparr>dynamic_tables := filter (\<lambda>t. \<not> p t) (dynamic_tables d),
            table_columns := filter (\<lambda>c. col_table_id c \<notin> set gone) (table_columns d),
            table_data := filter (\<lambda>r. row_table_id r \<notin> set gone) (table_data d)\<rparr>)"

text \<open>\<open>DELETE FROM sidebar_items WHERE p\<close>: the descendants of a deleted item go with it,
  and so does the dynamic table of every deleted item.\<close>

definition sql_delete_sidebar_items :: "(sidebar_item \<Rightarrow> bool) \<Rightarrow> db \<Rightarrow> db" where
  "sql_delete_sidebar_items p d =
     (let kept = remove_cascade (map si_id (filter p (sidebar_items d))) (sidebar_items d);
          gone = filter (\<lambda>a. a \<notin> set (map si_id kept)) (map si_id (sidebar_items d))
      in sql_delete_dynamic_tables (\<lambda>t. dt_sidebar_item_id t \<in> set gone)
           (d\<lparr>sidebar_items := kept\<rparr>))"


section \<open>DatabaseService\<close>

text \<open>
  The operations of the class \<open>DatabaseService\<close> of src/lib/database.ts. The file holds
  several revisions of the class; each definition names the lines it is taken from.
  The constraints are those of the schema: the foreign keys and the \<open>CHECK\<close> on
  \<open>item_type\<close> (lines 59 to 110), and the two uniqueness constraints the repository's
  schema script declares (src/scripts/001-create-sidebar-tables.sql, lines 64 and 84):
  \<open>table_name\<close> is unique, and so is \<open>(table_id, column_name)\<close>.
\<close>

text \<open>\<open>getSidebarItems\<close>, lines 169 to 187:
  \<^verbatim>\<open>SELECT * FROM sidebar_items ORDER BY parent_id NULLS FIRST, sort_order, name\<close>\<close>

definition getSidebarItems :: "db \<Rightarrow> sidebar_item list" where
  "getSidebarItems d =
     sort_key (\<lambda>i. (si_parent_id i, si_sort_order i, si_name i)) (sidebar_items d)"

definition item_type_of :: "string \<Rightarrow> item_type option" where
  "item_type_of s =
     (if s = ''folder'' then Some Folder else if s = ''table'' then Some Table else None)"

text \<open>\<open>createSidebarItem\<close>, lines 189 to 196: one \<open>INSERT ... RETURNING *\<close>.\<close>

definition createSidebarItem ::
  "db \<Rightarrow> string \<Rightarrow> int option \<Rightarrow> string \<Rightarrow> string option \<Rightarrow> int \<Rightarrow> error + (db \<times> sidebar_item)"
where
  "createSidebarItem d name parent_id item_type icon sort_order =
     (case item_type_of item_type of
        None \<Rightarrow> Inl (CheckViolation ''sidebar_items.item_type'')
      | Some ty \<Rightarrow>
          if (case parent_id of None \<Rightarrow> False
              | Some p \<Rightarrow> p \<notin> set (map si_id (sidebar_items d)))
          then Inl (ForeignKeyViolation ''sidebar_items.parent_id'')
          else
            let item = \<lparr>si_id = next_sidebar_id d, si_name = name, si_parent_id = parent_id,
                         si_item_type = ty, si_icon = icon, si_sort_order = sort_order\<rparr>
            in Inr (d\<lparr>sidebar_items := sidebar_items d @ [item],
                       next_sidebar_id := next_sidebar_id d + 1\<rparr>, item))"

text \<open>\<open>deleteSidebarItem\<close>, lines 213 to 215: one \<open>DELETE\<close>, the cascade does the rest.\<close>

definition deleteSidebarItem_v1 :: "db \<Rightarrow> int \<Rightarrow> db" where
  "deleteSidebarItem_v1 d a = sql_delete_sidebar_items (\<lambda>i. si_id i = a) d"

text \<open>\<open>deleteSidebarItem\<close>, lines 609 to 664: looks the item up, deletes the dynamic
  tables of the folder's table children and then the children, or the dynamic table of
  a table item, and finally the item itself.\<close>

definition delete_contents :: "db \<Rightarrow> int \<Rightarrow> sidebar_item \<Rightarrow> db" where
  "delete_contents d a item =
     (if si_item_type item = Folder then
        let tablesToDelete =
              filter (\<lambda>i. si_parent_id i = Some a \<and> si_item_type i = Table) (sidebar_items d);
            tableIds = map si_id tablesToDelete;
            d1 = (if length tablesToDelete > 0
                  then sql_delete_dynamic_tables (\<lambda>t. dt_sidebar_item_id t \<in> set tableIds) d
                  else d)
        in sql_delete_sidebar_items (\<lambda>i. si_parent_id i = Some a) d1
      else sql_delete_dynamic_tables (\<lambda>t. dt_sidebar_item_id t = a) d)"

definition deleteSidebarItem_v2 :: "db \<Rightarrow> int \<Rightarrow> error + db" where
  "deleteSidebarItem_v2 d a =
     (case find (\<lambda>i. si_id i = a) (sidebar_items d) of
        None \<Rightarrow> Inl (Error ''Sidebar item not found'')
      | Some item \<Rightarrow>
          Inr (sql_delete_sidebar_items (\<lambda>i. si_id i = a) (delete_contents d a item)))"

text \<open>\<open>createDynamicTable\<close>, lines 232 to 241: one \<open>INSERT ... RETURNING *\<close>.\<close>

definition insert_dynamic_table ::
  "db \<Rightarrow> int \<Rightarrow> string \<Rightarrow> string \<Rightarrow> string option \<Rightarrow> error + (db \<times> dynamic_table)"
where
  "insert_dynamic_table d sidebar_item_id table_name display_name description =
     (if sidebar_item_id \<notin> set (map si_id (sidebar_items d))
      then Inl (ForeignKeyViolation ''dynamic_tables.sidebar_item_id'')
      else if table_name \<in> set (map dt_table_name (dynamic_tables d))
      then Inl (UniqueViolation ''dynamic_tables.table_name'')
      else
        let t = \<lparr>dt_id = next_table_id d, dt_sidebar_item_id = sidebar_item_id,
                  dt_table_name = table_name, dt_display_name = display_name,
                  dt_description = description\<rparr>
        in Inr (d\<lparr>dynamic_tables := dynamic_tables d @ [t],
                   next_table_id := next_table_id d + 1\<rparr>, t))"

definition createDynamicTable ::
  "db \<Rightarrow> int \<Rightarrow> string \<Rightarrow> string \<Rightarrow> string option \<Rightarrow> error + (db \<times> dynamic_table)"
where
  "createDynamicTable = insert_dynamic_table"

text \<open>\<open>createDynamicTable\<close>, lines 1264 to 1294: the same insert behind a check of the
  required fields (\<open>!table.sidebar_item_id || !table.table_name || !table.display_name\<close>).\<close>

definition createDynamicTable_v3 ::
  "db \<Rightarrow> int \<Rightarrow> string \<Rightarrow> string \<Rightarrow> string option \<Rightarrow> error + (db \<times> dynamic_table)"
where
  "createDynamicTable_v3 d sidebar_item_id table_name display_name description =
     (if sidebar_item_id = 0 \<or> table_name = [] \<or> display_name = []
      then Inl (Error ''Missing required fields for creating dynamic table'')
      else insert_dynamic_table d sidebar_item_id table_name display_name description)"

subsection \<open>Columns\<close>

text \<open>\<open>Partial<TableColumn>\<close>: a field that is not supplied is \<open>None\<close>.\<close>

record column_updates =
  upd_column_name :: "string option"
  upd_display_name :: "string option"
  upd_data_type :: "data_type option"
  upd_is_required :: "bool option"
  upd_default_value :: "string option"
  upd_sort_order :: "int option"
  upd_width :: "int option"

definition COALESCE :: "'a option \<Rightarrow> 'a \<Rightarrow> 'a" where
  "COALESCE v old = (case v of None \<Rightarrow> old | Some x \<Rightarrow> x)"

text \<open>The \<open>SET\<close> clause of \<open>updateTableColumn\<close>, lines 265 to 272. The column
  \<open>default_value\<close> is nullable, so its old value is an option itself.\<close>

definition set_column :: "nat \<Rightarrow> column_updates \<Rightarrow> table_column \<Rightarrow> table_column" where
  "set_column now u c =
     c\<lparr>col_column_name := COALESCE (upd_column_name u) (col_column_name c),
       col_display_name := COALESCE (upd_display_name u) (col_display_name c),
       col_data_type := COALESCE (upd_data_type u) (col_data_type c),
       col_is_required := COALESCE (upd_is_required u) (col_is_required c),
       col_default_value :=
         (case upd_default_value u of None \<Rightarrow> col_default_value c | Some v \<Rightarrow> Some v),
       col_sort_order := COALESCE (upd_sort_order u) (col_sort_order c),
       col_width := COALESCE (upd_width u) (col_width c),
       col_updated_at := now\<rparr>"

text \<open>\<open>updateTableColumn\<close>, lines 262 to 277: \<open>UPDATE ... WHERE id = ... RETURNING *\<close>;
  the result is the first returned row, \<open>undefined\<close> when no row has the id. The
  statement fails as a whole when the new rows break \<open>UNIQUE(table_id, column_name)\<close>.\<close>

definition updateTableColumn ::
  "db \<Rightarrow> nat \<Rightarrow> int \<Rightarrow> column_updates \<Rightarrow> error + (db \<times> table_column option)"
where
  "updateTableColumn d now a updates =
     (let cols = map (\<lambda>c. if col_id c = a then set_column now updates c else c)
                   (table_columns d)
      in if \<not> distinct (map (\<lambda>c. (col_table_id c, col_column_name c)) cols)
         then Inl (UniqueViolation ''table_columns.table_id_column_name'')
         else Inr (d\<lparr>table_columns := cols\<rparr>, find (\<lambda>c. col_id c = a) cols))"

subsection \<open>Rows\<close>

definition insert_table_data :: "db \<Rightarrow> nat \<Rightarrow> int \<Rightarrow> row_data \<Rightarrow> db \<times> table_data" where
  "insert_table_data d now tableId rowData =
     (let r = \<lparr>row_id = next_row_id d, row_table_id = tableId, row_row_data = rowData,
                row_created_at = now, row_updated_at = now\<rparr>
      in (d\<lparr>table_data := table_data d @ [r], next_row_id := next_row_id d + 1\<rparr>, r))"

text \<open>
  In the first revision \<open>row_data\<close> is a \<open>JSONB\<close> column (line 106). The statement
  carries \<open>JSON.stringify(rowData)\<close> as a parameter, which the store reads as \<open>JSONB\<close>
  before it runs the statement; that input refuses the character U+0000 (written
  \<open>\u0000\<close> in the text), in a key as in a string, with the error
  \<open>unsupported Unicode escape sequence\<close>. The later revisions, written for another
  store, declare the column \<open>JSON\<close> (lines 421 and 1046), whose input takes that escape.
\<close>

definition has_NUL :: "string \<Rightarrow> bool" where
  "has_NUL s = (CHR 0x00 \<in> set s)"

definition jsonb_accepts :: "row_data \<Rightarrow> bool" where
  "jsonb_accepts rowData =
     (\<forall>k \<in> dom rowData. \<not> has_NUL k \<and>
        (case rowData k of Some (JStr s) \<Rightarrow> \<not> has_NUL s | _ \<Rightarrow> True))"

text \<open>\<open>createTableRow\<close>, lines 294 to 301: one \<open>INSERT ... RETURNING *\<close>; the foreign key
  on \<open>table_id\<close> rejects a table that does not exist.\<close>

definition createTableRow_v1 :: "db \<Rightarrow> nat \<Rightarrow> int \<Rightarrow> row_data \<Rightarrow> error + (db \<times> table_data)" where
  "createTableRow_v1 d now tableId rowData =
     (if \<not> jsonb_accepts rowData
      then Inl (UnsupportedUnicodeEscape ''table_data.row_data'')
      else if tableId \<notin> set (map dt_id (dynamic_tables d))
      then Inl (ForeignKeyViolation ''table_data.table_id'')
      else Inr (insert_table_data d now tableId rowData))"

text \<open>\<open>createTableRow\<close>, lines 819 to 853: counts the dynamic tables with the id, throws
  \<open>Table with ID ... not found\<close> when there is none, inserts the row and reads it back.\<close>

definition createTableRow :: "db \<Rightarrow> nat \<Rightarrow> int \<Rightarrow> row_data \<Rightarrow> error + (db \<times> table_data)" where
  "createTableRow d now tableId rowData =
     (let count = length (filter (\<lambda>t. dt_id t = tableId) (dynamic_tables d))
      in if count = 0 then Inl (TableNotFound tableId)
         else Inr (insert_table_data d now tableId rowData))"

text \<open>\<open>updateTableRow\<close>, lines 303 to 312:
  \<^verbatim>\<open>UPDATE table_data SET row_data = ..., updated_at = NOW() WHERE id = ... RETURNING *\<close>
  The method returns \<open>result[0]\<close>, which is \<open>undefined\<close> when no row has the id. A
  mapping that the \<open>JSONB\<close> column refuses makes the statement fail, whether a row has
  the id or not, and leaves the store as it was.\<close>

definition replace_row :: "nat \<Rightarrow> row_data \<Rightarrow> table_data \<Rightarrow> table_data" where
  "replace_row now rowData r = r\<lparr>row_row_data := rowData, row_updated_at := now\<rparr>"

definition updateTableRow ::
  "db \<Rightarrow> nat \<Rightarrow> int \<Rightarrow> row_data \<Rightarrow> error + (db \<times> table_data option)"
where
  "updateTableRow d now a rowData =
     (if \<not> jsonb_accepts rowData
      then Inl (UnsupportedUnicodeEscape ''table_data.row_data'')
      else
        let rows = map (\<lambda>r. if row_id r = a then replace_row now rowData r else r)
                     (table_data d)
        in Inr (d\<lparr>table_data := rows\<rparr>, find (\<lambda>r. row_id r = a) rows))"


section \<open>A small store used by the examples\<close>

text \<open>A root folder \<open>Tables\<close> holding the table \<open>Customers\<close> and the folder
  \<open>Archive\<close>, which holds the table \<open>Orders\<close>.\<close>

definition example_items :: "sidebar_item list" where
  "example_items =
     [\<lparr>si_id = 1, si_name = ''Tables'', si_parent_id = None, si_item_type = Folder,
       si_icon = Some ''folder'', si_sort_order = 0\<rparr>,
      \<lparr>si_id = 2, si_name = ''Customers'', si_parent_id = Some 1, si_item_type = Table,
       si_icon = Some ''table'', si_sort_order = 1\<rparr>,
      \<lparr>si_id = 3, si_name = ''Archive'', si_parent_id = Some 1, si_item_type = Folder,
       si_icon = Some ''folder'', si_sort_order = 2\<rparr>,
      \<lparr>si_id = 4, si_name = ''Orders'', si_parent_id = Some 3, si_item_type = Table,
       si_icon = Some ''table'', si_sort_order = 1\<rparr>]"

definition example_tables :: "dynamic_table list" where
  "example_tables =
     [\<lparr>dt_id = 1, dt_sidebar_item_id = 2, dt_table_name = ''customers'',
       dt_display_name = ''Customers'', dt_description = None\<rparr>,
      \<lparr>dt_id = 2, dt_sidebar_item_id = 4, dt_table_name = ''orders'',
       dt_display_name = ''Orders'', dt_description = None\<rparr>]"

definition example_columns :: "table_column list" where
  "example_columns =
     [\<lparr>col_id = 1, col_table_id = 1, col_column_name = ''full_name'',
       col_display_name = ''Full Name'', col_data_type = TText, col_is_required = True,
       col_default_value = None, col_sort_order = 0, col_width = 150,
       col_created_at = 1, col_updated_at = 1\<rparr>,
      \<lparr>col_id = 2, col_table_id = 2, col_column_name = ''total'',
       col_display_name = ''Total'', col_data_type = TNumber, col_is_required = False,
       col_default_value = Some ''5'', col_sort_order = 0, col_width = 150,
       col_created_at = 1, col_updated_at = 1\<rparr>]"

definition example_rows :: "table_data list" where
  "example_rows =
     [\<lparr>row_id = 1, row_table_id = 1,
       row_row_data = [''a'' \<mapsto> JNum 1, ''b'' \<mapsto> JNum 2],
       row_created_at = 1, row_updated_at = 1\<rparr>,
      \<lparr>row_id = 2, row_table_id = 2, row_row_data = [''total'' \<mapsto> JNum 0],
       row_created_at = 1, row_updated_at = 1\<rparr>]"

definition example_db :: db where
  "example_db =
     \<lparr>sidebar_items = example_items, dynamic_tables = example_tables,
      table_columns = example_columns, table_data = example_rows,
      next_sidebar_id = 5, next_table_id = 3, next_row_id = 3\<rparr>"

text \<open>An update that supplies the display name only.\<close>

definition rename_display :: column_updates where
  "rename_display =
     \<lparr>upd_column_name = None, upd_display_name = Some ''Name'', upd_data_type = None,
      upd_is_required = None, upd_default_value = None, upd_sort_order = None,
      upd_width = None\<rparr>"

section \<open>The grid: mapping stored rows for display\<close>

text \<open>
  src/components/table-view.tsx. The component's own \<open>Column\<close> and \<open>TableData\<close>
  interfaces (lines 18 to 30): the type of a column is a plain string there, and
  \<open>default_value\<close> is optional.
\<close>

record grid_column =
  gc_id :: int
  gc_name :: string
  gc_data_type :: string
  gc_is_required :: bool
  gc_default_value :: "string option"
  gc_sort_order :: int

record grid_row =
  gr_id :: int
  gr_data :: row_data

text \<open>
  What reading a property \<open>obj[k]\<close> of a parsed JSON object gives: the value the object
  holds under \<open>k\<close> itself; else, the object being an ordinary one, what it inherits from
  \<open>Object.prototype\<close> under that name (a function, or for \<open>__proto__\<close> the prototype
  itself); else \<open>undefined\<close>.
\<close>

datatype property = Undefined | Data js_value | Inherited string

definition Object_prototype :: "string list" where
  "Object_prototype =
     [''constructor'', ''__defineGetter__'', ''__defineSetter__'', ''hasOwnProperty'',
      ''__lookupGetter__'', ''__lookupSetter__'', ''isPrototypeOf'', ''propertyIsEnumerable'',
      ''toString'', ''valueOf'', ''__proto__'', ''toLocaleString'']"

definition Get :: "row_data \<Rightarrow> string \<Rightarrow> property" where
  "Get obj k =
     (case obj k of
        Some v \<Rightarrow> Data v
      | None \<Rightarrow> if k \<in> set Object_prototype then Inherited k else Undefined)"

text \<open>JavaScript truthiness: \<open>undefined\<close>, \<open>null\<close>, \<open>false\<close>, \<open>0\<close> and the empty string
  are falsy; a function or an object is truthy.\<close>

fun truthy :: "property \<Rightarrow> bool" where
  "truthy Undefined = False"
| "truthy (Data JNull) = False"
| "truthy (Data (JBool b)) = b"
| "truthy (Data (JNum x)) = (x \<noteq> 0)"
| "truthy (Data (JStr s)) = (s \<noteq> [])"
| "truthy (Inherited k) = True"

text \<open>\<open>a || b\<close>\<close>

definition js_or :: "property \<Rightarrow> js_value \<Rightarrow> property" where
  "js_or a b = (if truthy a then a else Data b)"

text \<open>\<open>getDefaultValueForType\<close>, lines 329 to 345. The first argument is what
  \<open>new Date().toISOString()\<close> gives at the time of the call; \<open>split("T")[0]\<close> is its
  part before the first \<open>T\<close>.\<close>

definition getDefaultValueForType :: "string \<Rightarrow> string \<Rightarrow> string option \<Rightarrow> js_value" where
  "getDefaultValueForType toISOString dataType defaultValue =
     (if (case defaultValue of None \<Rightarrow> False | Some v \<Rightarrow> v \<noteq> [])
      then JStr (the defaultValue)
      else if dataType = ''number'' \<or> dataType = ''decimal'' \<or> dataType = ''double''
      then JNum 0
      else if dataType = ''boolean'' \<or> dataType = ''checkbox''
      then JBool False
      else if dataType = ''date''
      then JStr (takeWhile (\<lambda>c. c \<noteq> CHR ''T'') toISOString)
      else JStr [])"

text \<open>The data mapping of \<open>initializeTabulator\<close>, lines 152 to 159. The mapped row is
  an object literal, so the assignment \<open>mappedRow[fieldName] = value\<close> adds or overwrites
  a property of its own, except under the name \<open>__proto__\<close>: there it runs the inherited
  setter, which adds no property, and which leaves the prototype as it is for every
  value that can arrive here (a string, a number, a boolean, or \<open>Object.prototype\<close>
  again).\<close>

type_synonym mapped_row = "string \<rightharpoonup> property"

definition fieldName :: "grid_column \<Rightarrow> string" where
  "fieldName col = replace_ws_runs False (toLowerCase (gc_name col))"

definition cell_value :: "string \<Rightarrow> grid_column \<Rightarrow> grid_row \<Rightarrow> property" where
  "cell_value toISOString col row =
     js_or (Get (gr_data row) (gc_name col))
       (getDefaultValueForType toISOString (gc_data_type col) (gc_default_value col))"

definition set_property :: "string \<Rightarrow> property \<Rightarrow> mapped_row \<Rightarrow> mapped_row" where
  "set_property k v obj = (if k = ''__proto__'' then obj else obj(k \<mapsto> v))"

definition mappedRow :: "string \<Rightarrow> grid_column list \<Rightarrow> grid_row \<Rightarrow> mapped_row" where
  "mappedRow toISOString columns row =
     fold (\<lambda>col. set_property (fieldName col) (cell_value toISOString col row)) columns
       [''id'' \<mapsto> Data (JNum (of_int (gr_id row)))]"

definition mappedData :: "string \<Rightarrow> grid_column list \<Rightarrow> grid_row list \<Rightarrow> mapped_row list" where
  "mappedData toISOString columns tableData = map (mappedRow toISOString columns) tableData"

text \<open>A number column \<open>total\<close> with the default \<open>5\<close>, one with an empty default, a date
  column, a number column that is named \<open>constructor\<close>, three rows, and a moment of
  reading.\<close>

definition total_column :: "string option \<Rightarrow> grid_column" where
  "total_column dflt =
     \<lparr>gc_id = 2, gc_name = ''total'', gc_data_type = ''number'', gc_is_required = False,
      gc_default_value = dflt, gc_sort_order = 0\<rparr>"

definition date_column :: grid_column where
  "date_column =
     \<lparr>gc_id = 3, gc_name = ''created'', gc_data_type = ''date'', gc_is_required = False,
      gc_default_value = None, gc_sort_order = 1\<rparr>"

definition constructor_column :: grid_column where
  "constructor_column =
     \<lparr>gc_id = 4, gc_name = ''constructor'', gc_data_type = ''number'', gc_is_required = False,
      gc_default_value = None, gc_sort_order = 2\<rparr>"

definition empty_row :: grid_row where
  "empty_row = \<lparr>gr_id = 2, gr_data = Map.empty\<rparr>"

definition zero_row :: grid_row where
  "zero_row = \<lparr>gr_id = 2, gr_data = [''total'' \<mapsto> JNum 0]\<rparr>"


definition read_time :: string where
  "read_time = ''2024-01-15T10:30:00.000Z''"

section \<open>Creating a sidebar item\<close>

text \<open>
  The handler \<open>POST\<close> of src/app/api/sidebar/route.ts (lines 22 to 78), from the
  parsed body on: \<open>initializeTables\<close> has provisioned the store. The body carries
  \<open>name\<close>, \<open>parent_id\<close>, \<open>item_type\<close> and \<open>icon\<close>. The handler checks \<open>name\<close> and
  \<open>item_type\<close> only, so a body may leave \<open>parent_id\<close> out; where it is given it is, as
  the interface \<open>SidebarItem\<close> declares it (line 12 of src/lib/database.ts), \<open>null\<close> or
  a number, the id of an item.
\<close>

datatype parent_id_arg = Omitted | Null | Number int

record post_body =
  body_name :: string
  body_parent_id :: parent_id_arg
  body_item_type :: string
  body_icon :: "string option"

datatype response =
    Json sidebar_item
  | BadRequest string
  | ServerError string error

text \<open>\<open>Math.max(...xs, z)\<close>\<close>

definition Math_max_with :: "int list \<Rightarrow> int \<Rightarrow> int" where
  "Math_max_with xs z = fold max xs z"

text \<open>\<open>item.parent_id === parent_id\<close>, line 37: the \<open>parent_id\<close> of a stored item is
  \<open>null\<close> or a number, and strict equality holds between \<open>null\<close> and \<open>null\<close> and
  between equal numbers. The \<open>undefined\<close> of a body without \<open>parent_id\<close> is strictly equal
  to neither.\<close>

fun strict_equals :: "int option \<Rightarrow> parent_id_arg \<Rightarrow> bool" where
  "strict_equals None Null = True"
| "strict_equals (Some p) (Number q) = (p = q)"
| "strict_equals _ _ = False"

text \<open>The value the \<open>INSERT\<close> of \<open>createSidebarItem\<close> stores for the \<open>parent_id\<close> it is
  passed: the driver sends \<open>undefined\<close>, like \<open>null\<close>, as \<open>NULL\<close>.\<close>

fun sql_parameter :: "parent_id_arg \<Rightarrow> int option" where
  "sql_parameter Omitted = None"
| "sql_parameter Null = None"
| "sql_parameter (Number p) = Some p"

text \<open>Lines 36 to 38.\<close>

definition parentSiblings :: "db \<Rightarrow> parent_id_arg \<Rightarrow> sidebar_item list" where
  "parentSiblings d parent_id =
     filter (\<lambda>item. strict_equals (si_parent_id item) parent_id) (getSidebarItems d)"

definition nextSortOrder :: "db \<Rightarrow> parent_id_arg \<Rightarrow> int" where
  "nextSortOrder d parent_id =
     Math_max_with (map si_sort_order (parentSiblings d parent_id)) 0 + 1"

text \<open>The handler is written against \<open>DatabaseService\<close>, of which src/lib/database.ts
  holds several revisions; the revision of \<open>createDynamicTable\<close> it runs with is the
  first argument.\<close>

definition POST_with ::
  "(db \<Rightarrow> int \<Rightarrow> string \<Rightarrow> string \<Rightarrow> string option \<Rightarrow> error + (db \<times> dynamic_table)) \<Rightarrow>
   db \<Rightarrow> post_body \<Rightarrow> db \<times> response"
where
  "POST_with DatabaseService_createDynamicTable d body =
     (if body_name body = [] \<or> body_item_type body = []
      then (d, BadRequest ''Name and item_type are required'')
      else
        case createSidebarItem d (body_name body) (sql_parameter (body_parent_id body))
               (body_item_type body) (body_icon body)
               (nextSortOrder d (body_parent_id body)) of
          Inl e \<Rightarrow> (d, ServerError ''Failed to create sidebar item'' e)
        | Inr (d1, newItem) \<Rightarrow>
            if body_item_type body = ''table''
            then
              (case DatabaseService_createDynamicTable d1 (si_id newItem)
                      (normalize_name (body_name body))
                      (body_name body) (Some (''Dynamic table: '' @ body_name body)) of
                 Inl e \<Rightarrow> (d1, ServerError ''Failed to create sidebar item'' e)
               | Inr (d2, t) \<Rightarrow> (d2, Json newItem))
            else (d1, Json newItem))"

text \<open>With the revision of \<open>DatabaseService\<close> that the file opens with (lines 53 to 317).\<close>

definition POST :: "db \<Rightarrow> post_body \<Rightarrow> db \<times> response" where
  "POST = POST_with createDynamicTable"

text \<open>
  The handler \<open>POST\<close> of the later revision of the route (src/unnamed/part_003, lines 22
  to 104). It cuts the table name to 64 characters, provisions the dynamic table inside
  a \<open>try\<close>, and on failure deletes the sidebar item it has just created before it throws
  the error again. A failure of that delete is the error that reaches the outer
  \<open>catch\<close>.
\<close>

definition POST_part_003 :: "db \<Rightarrow> post_body \<Rightarrow> db \<times> response" where
  "POST_part_003 d body =
     (if body_name body = [] \<or> body_item_type body = []
      then (d, BadRequest ''Name and item_type are required'')
      else
        case createSidebarItem d (body_name body) (sql_parameter (body_parent_id body))
               (body_item_type body) (body_icon body)
               (nextSortOrder d (body_parent_id body)) of
          Inl e \<Rightarrow> (d, ServerError ''Failed to create sidebar item'' e)
        | Inr (d1, newItem) \<Rightarrow>
            if body_item_type body = ''table''
            then
              (case createDynamicTable_v3 d1 (si_id newItem)
                      (take 64 (normalize_name (body_name body)))
                      (body_name body) (Some (''Dynamic table: '' @ body_name body)) of
                 Inl e \<Rightarrow>
                   (case deleteSidebarItem_v2 d1 (si_id newItem) of
                      Inl e' \<Rightarrow> (d1, ServerError ''Failed to create sidebar item'' e')
                    | Inr d2 \<Rightarrow> (d2, ServerError ''Failed to create sidebar item'' e))
               | Inr (d2, t) \<Rightarrow> (d2, Json newItem))
            else (d1, Json newItem))"

text \<open>Requests used by the examples: a second table named \<open>Customers\<close>, a table whose
  name normalizes to the empty string, and a new root folder. The last store has one
  root folder whose \<open>sort_order\<close> was set to \<open>-5\<close>.\<close>

definition customers_again :: post_body where
  "customers_again =
     \<lparr>body_name = ''Customers'', body_parent_id = Number 3, body_item_type = ''table'',
      body_icon = Some ''table''\<rparr>"

definition unnameable :: post_body where
  "unnameable =
     \<lparr>body_name = ''!!!'', body_parent_id = Number 3, body_item_type = ''table'',
      body_icon = Some ''table''\<rparr>"

definition new_root_folder :: post_body where
  "new_root_folder =
     \<lparr>body_name = ''Reports'', body_parent_id = Null, body_item_type = ''folder'',
      body_icon = Some ''folder''\<rparr>"

definition negative_db :: db where
  "negative_db =
     \<lparr>sidebar_items =
        [\<lparr>si_id = 1, si_name = ''Tables'', si_parent_id = None, si_item_type = Folder,
          si_icon = Some ''folder'', si_sort_order = -5\<rparr>],
      dynamic_tables = [], table_columns = [], table_data = [],
      next_sidebar_id = 2, next_table_id = 1, next_row_id = 1\<rparr>"

text \<open>A table under the folder \<open>1\<close>; a store whose one root folder has the \<open>sort_order\<close>
  \<open>7\<close>, and a request for a root folder that leaves \<open>parent_id\<close> out.\<close>

definition invoices :: post_body where
  "invoices =
     \<lparr>body_name = ''Invoices'', body_parent_id = Number 1, body_item_type = ''table'',
      body_icon = Some ''table''\<rparr>"

definition seven_db :: db where
  "seven_db =
     \<lparr>sidebar_items =
        [\<lparr>si_id = 1, si_name = ''Tables'', si_parent_id = None, si_item_type = Folder,
          si_icon = Some ''folder'', si_sort_order = 7\<rparr>],
      dynamic_tables = [], table_columns = [], table_data = [],
      next_sidebar_id = 2, next_table_id = 1, next_row_id = 1\<rparr>"

definition reports_without_parent_id :: post_body where
  "reports_without_parent_id =
     \<lparr>body_name = ''Reports'', body_parent_id = Omitted, body_item_type = ''folder'',
      body_icon = Some ''folder''\<rparr>"

section \<open>The subtree of a sidebar item\<close>

text \<open>The ids of the items below the item \<open>a\<close> in a list of sidebar items: its
  children, their children, and so on.\<close>

inductive_set descendants :: "sidebar_item list \<Rightarrow> int \<Rightarrow> int set"
  for items :: "sidebar_item list" and a :: int
where
  child: "x \<in> set items \<Longrightarrow> si_parent_id x = Some a \<Longrightarrow> si_id x \<in> descendants items a"
| deeper: "p \<in> descendants items a \<Longrightarrow> x \<in> set items \<Longrightarrow> si_parent_id x = Some p \<Longrightarrow>
     si_id x \<in> descendants items a"

code_pred descendantsp .

text \<open>Nothing of the items with an id in \<open>S\<close> is left in \<open>d'\<close>: no such sidebar item,
  no dynamic table bound to one, and no column or row of a dynamic table that was bound
  to one in \<open>d\<close>.\<close>

definition subtree_gone :: "db \<Rightarrow> int set \<Rightarrow> db \<Rightarrow> bool" where
  "subtree_gone d S d' =
     ((\<forall>x \<in> set (sidebar_items d'). si_id x \<notin> S) \<and>
      (\<forall>t \<in> set (dynamic_tables d'). dt_sidebar_item_id t \<notin> S) \<and>
      (\<forall>t \<in> set (dynamic_tables d). dt_sidebar_item_id t \<in> S \<longrightarrow>
         (\<forall>c \<in> set (table_columns d'). col_table_id c \<noteq> dt_id t) \<and>
         (\<forall>r \<in> set (table_data d'). row_table_id r \<noteq> dt_id t)))"

text \<open>A later state of the store that has only lost rows, in which a dynamic table that
  was dropped has left no column and no row behind.\<close>

definition shrinks :: "db \<Rightarrow> db \<Rightarrow> bool" where
  "shrinks e e' =
     (set (sidebar_items e') \<subseteq> set (sidebar_items e) \<and>
      set (dynamic_tables e') \<subseteq> set (dynamic_tables e) \<and>
      set (table_columns e') \<subseteq> set (table_columns e) \<and>
      set (table_data e') \<subseteq> set (table_data e) \<and>
      (\<forall>t \<in> set (dynamic_tables e). t \<notin> set (dynamic_tables e') \<longrightarrow>
         (\<forall>c \<in> set (table_columns e'). col_table_id c \<noteq> dt_id t) \<and>
         (\<forall>r \<in> set (table_data e'). row_table_id r \<noteq> dt_id t)))"

section \<open>The sidebar tree\<close>

text \<open>
  \<open>buildTree\<close> of the sidebar component (src/unnamed/part_000, lines 65 to 92). It
  copies every item into a fresh object with an empty \<open>children\<close> array, kept in a
  \<open>Map\<close> by id, and then pushes each object either to the root array or to the
  \<open>children\<close> array of its parent's object. The objects are shared between the map and
  the arrays, so the model keeps them in a store: an object is referred to by the key
  under which the map holds it, and arrays of objects are lists of such references.
\<close>

record tree_item =
  node_item :: sidebar_item
  node_children :: "int list"

type_synonym item_map = "int \<rightharpoonup> tree_item"

text \<open>First loop: \<open>itemMap.set(item.id, { ...item, children: [] })\<close>\<close>

definition set_item :: "sidebar_item \<Rightarrow> item_map \<Rightarrow> item_map" where
  "set_item item itemMap = itemMap(si_id item \<mapsto> \<lparr>node_item = item, node_children = []\<rparr>)"

text \<open>Second loop, one item: a null \<open>parent_id\<close> makes a root; otherwise the object is
  pushed to its parent's children when the map has the parent, and nothing happens when it
  has not.\<close>

definition place_item :: "sidebar_item \<Rightarrow> item_map \<times> int list \<Rightarrow> item_map \<times> int list" where
  "place_item item st =
     (case st of (itemMap, rootItems) \<Rightarrow>
        (case si_parent_id item of
           None \<Rightarrow> (itemMap, rootItems @ [si_id item])
         | Some p \<Rightarrow>
             (case itemMap p of
                None \<Rightarrow> (itemMap, rootItems)
              | Some parent \<Rightarrow>
                  (itemMap(p \<mapsto> parent\<lparr>node_children := node_children parent @ [si_id item]\<rparr>),
                   rootItems))))"

text \<open>The result is the root array together with the store its references point into.\<close>

definition buildTree :: "sidebar_item list \<Rightarrow> int list \<times> item_map" where
  "buildTree flatItems =
     (if flatItems = [] then ([], Map.empty)
      else
        case fold place_item flatItems (fold set_item flatItems Map.empty, []) of
          (itemMap, rootItems) \<Rightarrow> (rootItems, itemMap))"

text \<open>The forest a reader of the result sees when it follows the \<open>children\<close> arrays from
  the roots, as the component does when it renders. Fuel bounds the depth; \<open>None\<close> is
  a walk that did not end within it.\<close>

datatype tree = Node sidebar_item "tree list"

fun nodes :: "tree \<Rightarrow> nat" where
  "nodes (Node item ts) = Suc (sum_list (map nodes ts))"

fun readout :: "nat \<Rightarrow> item_map \<Rightarrow> int \<Rightarrow> tree option" where
  "readout 0 itemMap a = None"
| "readout (Suc n) itemMap a =
     (case itemMap a of
        None \<Rightarrow> None
      | Some obj \<Rightarrow>
          (case those (map (readout n itemMap) (node_children obj)) of
             None \<Rightarrow> None
           | Some ts \<Rightarrow> Some (Node (node_item obj) ts)))"

definition forest :: "sidebar_item list \<Rightarrow> tree list option" where
  "forest flatItems =
     (case buildTree flatItems of
        (rootItems, itemMap) \<Rightarrow> those (map (readout (Suc (length flatItems)) itemMap) rootItems))"

text \<open>An item whose \<open>parent_id\<close> is not null and is the id of no item of the list.\<close>

definition orphan :: "sidebar_item list \<Rightarrow> sidebar_item \<Rightarrow> bool" where
  "orphan flatItems x =
     (case si_parent_id x of None \<Rightarrow> False | Some p \<Rightarrow> p \<notin> set (map si_id flatItems))"

text \<open>The items at depth \<open>k\<close> below the roots: the roots themselves at depth \<open>0\<close>, and
  at depth \<open>k + 1\<close> the items whose parent is an item at depth \<open>k\<close>.\<close>

fun level :: "sidebar_item list \<Rightarrow> nat \<Rightarrow> sidebar_item list" where
  "level flat 0 = filter (\<lambda>i. si_parent_id i = None) flat"
| "level flat (Suc k) =
     filter (\<lambda>i. case si_parent_id i of None \<Rightarrow> False
                 | Some p \<Rightarrow> p \<in> set (map si_id (level flat k))) flat"

text \<open>An item whose chain of parents ends, within the list, at an item with a null
  \<open>parent_id\<close>.\<close>

inductive resolves :: "sidebar_item list \<Rightarrow> sidebar_item \<Rightarrow> bool"
  for flat :: "sidebar_item list"
where
  root: "x \<in> set flat \<Longrightarrow> si_parent_id x = None \<Longrightarrow> resolves flat x"
| below: "x \<in> set flat \<Longrightarrow> y \<in> set flat \<Longrightarrow> si_parent_id x = Some (si_id y) \<Longrightarrow>
     resolves flat y \<Longrightarrow> resolves flat x"

code_pred resolves .

text \<open>The ids of the children of \<open>a\<close>, and the number of nodes of the tree at \<open>a\<close> down to
  a depth of \<open>n\<close>.\<close>

definition children_ids :: "sidebar_item list \<Rightarrow> int \<Rightarrow> int list" where
  "children_ids flat a = map si_id (filter (\<lambda>i. si_parent_id i = Some a) flat)"

fun subtree_size :: "sidebar_item list \<Rightarrow> nat \<Rightarrow> int \<Rightarrow> nat" where
  "subtree_size flat 0 a = 0"
| "subtree_size flat (Suc n) a = Suc (sum_list (map (subtree_size flat n) (children_ids flat a)))"

text \<open>A root folder and a table whose parent, item \<open>9\<close>, is not in the list.\<close>

definition with_orphan :: "sidebar_item list" where
  "with_orphan =
     [\<lparr>si_id = 1, si_name = ''Tables'', si_parent_id = None, si_item_type = Folder,
       si_icon = Some ''folder'', si_sort_order = 0\<rparr>,
      \<lparr>si_id = 2, si_name = ''Lost'', si_parent_id = Some 9, si_item_type = Table,
       si_icon = Some ''table'', si_sort_order = 1\<rparr>]"

text \<open>What the second loop has added to the \<open>children\<close> array of the object \<open>a\<close> once it
  has gone through the items \<open>xs\<close>.\<close>

definition append_children :: "sidebar_item list \<Rightarrow> int \<Rightarrow> tree_item \<Rightarrow> tree_item" where
  "append_children xs a obj =
     obj\<lparr>node_children :=
           node_children obj @ map si_id (filter (\<lambda>i. si_parent_id i = Some a) xs)\<rparr>"

section \<open>Properties of the identifier normalizer\<close>

lemma lower_ident: "is_ident_char c \<Longrightarrow> lower_char c = c"
  by (auto simp: is_ident_char_def lower_char_def char_code_def)

lemma ident_not_space: "is_ident_char c \<Longrightarrow> \<not> is_space c"
  by (auto simp: is_ident_char_def is_space_def char_code_def)

lemma replace_ws_ident: "list_all is_ident_char s \<Longrightarrow> replace_ws_runs b s = s"
  by (induction s arbitrary: b) (auto simp: ident_not_space)

lemma normalize_name_ident: "list_all is_ident_char (normalize_name s)"
  by (simp add: normalize_name_def strip_non_ident_def list_all_iff)

text \<open>
  C6. The normalizer is a total function on strings; every character of its result is
  one of \<open>a\<close> to \<open>z\<close>, \<open>0\<close> to \<open>9\<close> or the underscore; and normalizing a normalized
  name gives it back unchanged.
\<close>

theorem normalize_name_idempotent:
  "list_all is_ident_char (normalize_name s) \<and>
   normalize_name (normalize_name s) = normalize_name s"
proof -
  let ?n = "normalize_name s"
  have a: "list_all is_ident_char ?n"
    by (rule normalize_name_ident)
  have "toLowerCase ?n = ?n"
    unfolding toLowerCase_def using a by (intro map_idI) (simp add: lower_ident list_all_iff)
  moreover have "replace_ws_runs False ?n = ?n"
    using a by (rule replace_ws_ident)
  moreover have "strip_non_ident ?n = ?n"
    using a by (simp add: strip_non_ident_def list_all_iff)
  ultimately have "normalize_name ?n = ?n"
    by (simp add: normalize_name_def[of ?n])
  with a show ?thesis by simp
qed

section \<open>Rows: full replacement and schema-on-read\<close>

lemma find_map_row:
  assumes "r \<in> set rows" "row_id r = a" "\<And>x. row_id (f x) = row_id x"
  shows "\<exists>x \<in> set rows. row_id x = a \<and>
     find (\<lambda>r. row_id r = a) (map (\<lambda>r. if row_id r = a then f r else r) rows) = Some (f x)"
  using assms(1,2)
proof (induction rows)
  case Nil
  then show ?case by simp
next
  case (Cons y ys)
  show ?case
  proof (cases "row_id y = a")
    case True
    then show ?thesis using assms(3) by simp
  next
    case False
    with Cons have "r \<in> set ys" by auto
    from Cons.IH[OF this Cons.prems(2)] False show ?thesis by auto
  qed
qed

lemma jsonb_accepts_example: "jsonb_accepts [''a'' \<mapsto> JNum 9]"
  by (simp add: jsonb_accepts_def has_NUL_def)

lemma jsonb_accepts_no_such_column: "jsonb_accepts [''no_such_column'' \<mapsto> JStr ''x'']"
  by (simp add: jsonb_accepts_def has_NUL_def)

lemma jsonb_refuses_NUL: "\<not> jsonb_accepts [''a'' \<mapsto> JStr [CHR 0x00]]"
  by (simp add: jsonb_accepts_def has_NUL_def)

lemma updateTableRow_rows:
  "jsonb_accepts m \<Longrightarrow>
   updateTableRow d now a m =
     Inr (d\<lparr>table_data := map (\<lambda>r. if row_id r = a then replace_row now m r else r) (table_data d)\<rparr>,
          find (\<lambda>r. row_id r = a)
            (map (\<lambda>r. if row_id r = a then replace_row now m r else r) (table_data d)))"
  by (simp add: updateTableRow_def Let_def)

text \<open>
  C2. For a mapping that the \<open>JSONB\<close> column accepts (no U+0000 in a key or in a string)
  and an id that a row has, \<open>updateTableRow\<close> succeeds and returns a row whose \<open>row_data\<close>
  is exactly the mapping passed in; every stored row with that id holds exactly that
  mapping afterwards, so a key of the old \<open>row_data\<close> that the new mapping does not have
  is gone; the rows with another id are the ones there were.
\<close>

theorem updateTableRow_full_replace:
  assumes acc: "jsonb_accepts m"
    and r: "r \<in> set (table_data d)" "row_id r = a"
  shows "\<exists>d' r'. updateTableRow d now a m = Inr (d', Some r') \<and>
           row_id r' = a \<and> row_row_data r' = m \<and>
           (\<forall>x \<in> set (table_data d'). row_id x = a \<longrightarrow>
               row_row_data x = m \<and>
               (\<forall>k. k \<in> dom (row_row_data r) \<and> k \<notin> dom m \<longrightarrow> row_row_data x k = None)) \<and>
           (\<exists>x \<in> set (table_data d'). row_id x = a) \<and>
           (\<forall>x \<in> set (table_data d). row_id x \<noteq> a \<longrightarrow> x \<in> set (table_data d'))"
proof -
  let ?g = "\<lambda>r. if row_id r = a then replace_row now m r else r"
  let ?rows = "map ?g (table_data d)"
  let ?d' = "d\<lparr>table_data := ?rows\<rparr>"
  have upd: "updateTableRow d now a m = Inr (?d', find (\<lambda>r. row_id r = a) ?rows)"
    by (rule updateTableRow_rows[OF acc])
  have d': "table_data ?d' = ?rows"
    by simp
  have idf: "\<And>x. row_id (replace_row now m x) = row_id x"
    by (simp add: replace_row_def)
  from find_map_row[OF r idf] obtain x where
    x: "row_id x = a" "find (\<lambda>r. row_id r = a) ?rows = Some (replace_row now m x)"
    by blast
  have 1: "updateTableRow d now a m = Inr (?d', Some (replace_row now m x))"
    using upd x(2) by simp
  have 2: "row_id (replace_row now m x) = a" "row_row_data (replace_row now m x) = m"
    using x(1) by (simp_all add: replace_row_def)
  have 3: "row_row_data y = m \<and>
           (\<forall>k. k \<in> dom (row_row_data r) \<and> k \<notin> dom m \<longrightarrow> row_row_data y k = None)"
    if "y \<in> set ?rows" "row_id y = a" for y
  proof -
    from that(1) obtain z where z: "z \<in> set (table_data d)" "y = ?g z"
      by auto
    with that(2) have "row_id z = a"
      by (cases "row_id z = a") simp_all
    with z have "row_row_data y = m"
      by (simp add: replace_row_def)
    then show ?thesis by auto
  qed
  have "?g r \<in> set ?rows"
    using r(1) by simp
  moreover have "row_id (?g r) = a"
    using r(2) idf by simp
  ultimately have 4: "\<exists>y \<in> set ?rows. row_id y = a"
    by blast
  have 5: "y \<in> set ?rows" if "y \<in> set (table_data d)" "row_id y \<noteq> a" for y
  proof -
    from that have "?g y = y" by simp
    moreover have "?g y \<in> set ?rows" using that(1) by simp
    ultimately show ?thesis by simp
  qed
  show ?thesis
  proof (intro exI conjI)
    show "updateTableRow d now a m = Inr (?d', Some (replace_row now m x))" by (rule 1)
    show "row_id (replace_row now m x) = a" by (rule 2)
    show "row_row_data (replace_row now m x) = m" by (rule 2)
    show "\<forall>y \<in> set (table_data ?d'). row_id y = a \<longrightarrow>
               row_row_data y = m \<and>
               (\<forall>k. k \<in> dom (row_row_data r) \<and> k \<notin> dom m \<longrightarrow> row_row_data y k = None)"
      unfolding d' using 3 by blast
    show "\<exists>y \<in> set (table_data ?d'). row_id y = a"
      unfolding d' by (rule 4)
    show "\<forall>y \<in> set (table_data d). row_id y \<noteq> a \<longrightarrow> y \<in> set (table_data ?d')"
      unfolding d' using 5 by blast
  qed
qed

text \<open>The row \<open>{a: 1, b: 2}\<close> updated with \<open>{a: 9}\<close> is stored as \<open>{a: 9}\<close>.\<close>

theorem updateTableRow_full_replace_witness:
  "\<exists>d' r'. updateTableRow example_db 7 1 [''a'' \<mapsto> JNum 9] = Inr (d', Some r') \<and>
     row_row_data r' ''a'' = Some (JNum 9) \<and> row_row_data r' ''b'' = None"
proof -
  have r: "hd example_rows \<in> set (table_data example_db)" "row_id (hd example_rows) = 1"
    by (simp_all add: example_db_def example_rows_def)
  from updateTableRow_full_replace[OF jsonb_accepts_example r, of 7]
  obtain d' r' where
    "updateTableRow example_db 7 1 [''a'' \<mapsto> JNum 9] = Inr (d', Some r')"
    "row_row_data r' = [''a'' \<mapsto> JNum 9]"
    by blast
  then have "updateTableRow example_db 7 1 [''a'' \<mapsto> JNum 9] = Inr (d', Some r') \<and>
     row_row_data r' ''a'' = Some (JNum 9) \<and> row_row_data r' ''b'' = None"
    by simp
  then show ?thesis by blast
qed

text \<open>
  C2 as stated fails for a mapping that holds U+0000: the row \<open>1\<close> exists, the update
  with \<open>{a: "\u0000"}\<close> is refused, and the store, which the failed statement does not
  touch, keeps the old mapping.
\<close>

theorem updateTableRow_NUL_counterexample:
  "hd example_rows \<in> set (table_data example_db) \<and> row_id (hd example_rows) = 1 \<and>
   updateTableRow example_db 7 1 [''a'' \<mapsto> JStr [CHR 0x00]] =
     Inl (UnsupportedUnicodeEscape ''table_data.row_data'')"
  using jsonb_refuses_NUL
  by (simp add: updateTableRow_def example_db_def example_rows_def)

text \<open>
  C9. \<open>createTableRow\<close> (lines 819 to 853) fails with the not-found error when no
  dynamic table has the id; when one has, it stores the mapping as it is, whatever its
  keys, and leaves the column definitions alone: nothing of the result depends on them.
  The first revision (lines 294 to 301), which has no check of its own, is stopped by
  the store when no dynamic table has the id, and does the same as the later one when
  one has and the mapping is one that its \<open>JSONB\<close> column accepts.
\<close>

theorem createTableRow_schema_on_read:
  "(tableId \<notin> set (map dt_id (dynamic_tables d)) \<longrightarrow>
      createTableRow d now tableId m = Inl (TableNotFound tableId)) \<and>
   (tableId \<in> set (map dt_id (dynamic_tables d)) \<longrightarrow>
      (\<exists>d' r. createTableRow d now tableId m = Inr (d', r) \<and>
         row_table_id r = tableId \<and> row_row_data r = m \<and>
         table_data d' = table_data d @ [r] \<and>
         table_columns d' = table_columns d \<and> dynamic_tables d' = dynamic_tables d)) \<and>
   (tableId \<notin> set (map dt_id (dynamic_tables d)) \<longrightarrow>
      createTableRow_v1 d now tableId m =
        Inl (if jsonb_accepts m then ForeignKeyViolation ''table_data.table_id''
             else UnsupportedUnicodeEscape ''table_data.row_data'')) \<and>
   (tableId \<in> set (map dt_id (dynamic_tables d)) \<and> jsonb_accepts m \<longrightarrow>
      createTableRow_v1 d now tableId m = createTableRow d now tableId m)"
proof -
  have "length (filter (\<lambda>t. dt_id t = tableId) (dynamic_tables d)) = 0 \<longleftrightarrow>
        tableId \<notin> set (map dt_id (dynamic_tables d))"
    by (auto simp: filter_empty_conv)
  then show ?thesis
    by (simp add: createTableRow_def createTableRow_v1_def insert_table_data_def Let_def)
qed

theorem createTableRow_schema_on_read_witness:
  "createTableRow example_db 9 7 [''no_such_column'' \<mapsto> JStr ''x''] = Inl (TableNotFound 7) \<and>
   (\<exists>d' r. createTableRow example_db 9 1 [''no_such_column'' \<mapsto> JStr ''x''] = Inr (d', r) \<and>
      row_row_data r ''no_such_column'' = Some (JStr ''x'') \<and>
      createTableRow_v1 example_db 9 1 [''no_such_column'' \<mapsto> JStr ''x''] = Inr (d', r) \<and>
      ''no_such_column'' \<notin> set (map col_column_name (table_columns example_db)))"
proof -
  let ?m = "[''no_such_column'' \<mapsto> JStr ''x'']"
  have a: "(7::int) \<notin> set (map dt_id (dynamic_tables example_db))"
    by (simp add: example_db_def example_tables_def)
  have b: "(1::int) \<in> set (map dt_id (dynamic_tables example_db))"
    by (simp add: example_db_def example_tables_def)
  have c: "''no_such_column'' \<notin> set (map col_column_name (table_columns example_db))"
    by (simp add: example_db_def example_columns_def)
  from createTableRow_schema_on_read[of 7 example_db 9 ?m] a
  have 1: "createTableRow example_db 9 7 ?m = Inl (TableNotFound 7)"
    by blast
  from createTableRow_schema_on_read[of 1 example_db 9 ?m] b jsonb_accepts_no_such_column
  obtain d' r where 2: "createTableRow example_db 9 1 ?m = Inr (d', r)"
    "row_row_data r = ?m"
    "createTableRow_v1 example_db 9 1 ?m = createTableRow example_db 9 1 ?m"
    by blast
  then have "createTableRow example_db 9 1 ?m = Inr (d', r) \<and>
      row_row_data r ''no_such_column'' = Some (JStr ''x'') \<and>
      createTableRow_v1 example_db 9 1 ?m = Inr (d', r)"
    by simp
  with 1 c show ?thesis by blast
qed

text \<open>
  C9 as stated fails for the first revision: the dynamic table \<open>1\<close> exists, and the
  mapping \<open>{a: "\u0000"}\<close> is not accepted.
\<close>

theorem createTableRow_NUL_counterexample:
  "(1::int) \<in> set (map dt_id (dynamic_tables example_db)) \<and>
   createTableRow_v1 example_db 9 1 [''a'' \<mapsto> JStr [CHR 0x00]] =
     Inl (UnsupportedUnicodeEscape ''table_data.row_data'')"
  using jsonb_refuses_NUL
  by (simp add: createTableRow_v1_def example_db_def example_tables_def)

section \<open>Columns: partial update\<close>

lemma set_column_frame:
  "col_id (set_column now u c) = col_id c \<and>
   col_table_id (set_column now u c) = col_table_id c \<and>
   col_created_at (set_column now u c) = col_created_at c"
  by (simp add: set_column_def)

lemma set_column_fields:
  "col_column_name (set_column now u c) =
     (case upd_column_name u of None \<Rightarrow> col_column_name c | Some v \<Rightarrow> v) \<and>
   col_display_name (set_column now u c) =
     (case upd_display_name u of None \<Rightarrow> col_display_name c | Some v \<Rightarrow> v) \<and>
   col_data_type (set_column now u c) =
     (case upd_data_type u of None \<Rightarrow> col_data_type c | Some v \<Rightarrow> v) \<and>
   col_is_required (set_column now u c) =
     (case upd_is_required u of None \<Rightarrow> col_is_required c | Some v \<Rightarrow> v) \<and>
   col_default_value (set_column now u c) =
     (case upd_default_value u of None \<Rightarrow> col_default_value c | Some v \<Rightarrow> Some v) \<and>
   col_sort_order (set_column now u c) =
     (case upd_sort_order u of None \<Rightarrow> col_sort_order c | Some v \<Rightarrow> v) \<and>
   col_width (set_column now u c) =
     (case upd_width u of None \<Rightarrow> col_width c | Some v \<Rightarrow> v)"
  by (simp add: set_column_def COALESCE_def)

lemma updateTableColumn_cols:
  "updateTableColumn d now a u = Inr (d', res) \<Longrightarrow>
   table_columns d' = map (\<lambda>c. if col_id c = a then set_column now u c else c) (table_columns d)
   \<and> res = find (\<lambda>c. col_id c = a) (table_columns d')"
  by (auto simp: updateTableColumn_def Let_def split: if_splits)

text \<open>
  C8. When the store accepts the update, the list of columns keeps its length and order;
  a column with another id is unchanged; in the column with the id, each of the seven
  updatable fields holds the supplied value when one was supplied and its prior value
  when none was (for \<open>default_value\<close> the prior value may be null), and \<open>id\<close>,
  \<open>table_id\<close> and \<open>created_at\<close> are as before. The bookkeeping column
  \<open>updated_at\<close> takes the time of the update.
\<close>

theorem updateTableColumn_partial_update:
  assumes upd: "updateTableColumn d now a u = Inr (d', res)"
    and i: "i < length (table_columns d)"
    and c: "c = table_columns d ! i" "c' = table_columns d' ! i"
  shows "length (table_columns d') = length (table_columns d) \<and>
    (col_id c \<noteq> a \<longrightarrow> c' = c) \<and>
    (col_id c = a \<longrightarrow>
       (\<exists>r. res = Some r \<and> col_id r = a) \<and>
       col_id c' = col_id c \<and> col_table_id c' = col_table_id c \<and>
       col_created_at c' = col_created_at c \<and>
       col_column_name c' =
         (case upd_column_name u of None \<Rightarrow> col_column_name c | Some v \<Rightarrow> v) \<and>
       col_display_name c' =
         (case upd_display_name u of None \<Rightarrow> col_display_name c | Some v \<Rightarrow> v) \<and>
       col_data_type c' =
         (case upd_data_type u of None \<Rightarrow> col_data_type c | Some v \<Rightarrow> v) \<and>
       col_is_required c' =
         (case upd_is_required u of None \<Rightarrow> col_is_required c | Some v \<Rightarrow> v) \<and>
       col_default_value c' =
         (case upd_default_value u of None \<Rightarrow> col_default_value c | Some v \<Rightarrow> Some v) \<and>
       col_sort_order c' =
         (case upd_sort_order u of None \<Rightarrow> col_sort_order c | Some v \<Rightarrow> v) \<and>
       col_width c' =
         (case upd_width u of None \<Rightarrow> col_width c | Some v \<Rightarrow> v))"
proof -
  let ?g = "\<lambda>c. if col_id c = a then set_column now u c else c"
  from updateTableColumn_cols[OF upd]
  have d': "table_columns d' = map ?g (table_columns d)"
    and res: "res = find (\<lambda>c. col_id c = a) (table_columns d')"
    by simp_all
  have len: "length (table_columns d') = length (table_columns d)"
    by (simp add: d')
  have c': "c' = ?g c"
    using i c by (simp add: d')
  have other: "col_id c \<noteq> a \<longrightarrow> c' = c"
    by (simp add: c')
  have hit: "col_id c = a \<longrightarrow> c' = set_column now u c"
    by (simp add: c')
  have found: "\<exists>r. res = Some r \<and> col_id r = a" if "col_id c = a"
  proof -
    have "c' \<in> set (table_columns d')"
      using i c(2) len by simp
    moreover have "col_id c' = a"
      using that hit set_column_frame[of now u c] by simp
    ultimately have "find (\<lambda>c. col_id c = a) (table_columns d') \<noteq> None"
      by (auto simp: find_None_iff)
    then obtain r where r: "find (\<lambda>c. col_id c = a) (table_columns d') = Some r"
      by blast
    then have "col_id r = a"
      by (auto simp: find_Some_iff)
    with r res show ?thesis by simp
  qed
  from len other hit found set_column_frame[of now u c] set_column_fields[of now u c]
  show ?thesis by simp
qed

theorem updateTableColumn_partial_update_witness:
  "\<exists>d' r. updateTableColumn example_db 8 1 rename_display = Inr (d', Some r) \<and>
     col_display_name (table_columns d' ! 0) = ''Name'' \<and>
     col_column_name (table_columns d' ! 0) = ''full_name'' \<and>
     col_width (table_columns d' ! 0) = 150 \<and>
     table_columns d' ! 1 = table_columns example_db ! 1"
proof -
  have "\<exists>d' res. updateTableColumn example_db 8 1 rename_display = Inr (d', res)"
    by (simp add: updateTableColumn_def example_db_def example_columns_def rename_display_def
        set_column_def COALESCE_def)
  then obtain d' res where u: "updateTableColumn example_db 8 1 rename_display = Inr (d', res)"
    by blast
  have l: "(0::nat) < length (table_columns example_db)" "(1::nat) < length (table_columns example_db)"
    by (simp_all add: example_db_def example_columns_def)
  have c0: "col_id (table_columns example_db ! 0) = 1" "col_column_name (table_columns example_db ! 0) = ''full_name''"
    "col_width (table_columns example_db ! 0) = 150"
    and c1: "col_id (table_columns example_db ! 1) \<noteq> 1"
    by (simp_all add: example_db_def example_columns_def)
  from updateTableColumn_partial_update[OF u l(1) refl refl] c0
  have a: "(\<exists>r. res = Some r)" "col_display_name (table_columns d' ! 0) = ''Name''"
    "col_column_name (table_columns d' ! 0) = ''full_name''" "col_width (table_columns d' ! 0) = 150"
    by (auto simp: rename_display_def)
  from updateTableColumn_partial_update[OF u l(2) refl refl] c1
  have b: "table_columns d' ! 1 = table_columns example_db ! 1"
    by blast
  from u a b show ?thesis by auto
qed

section \<open>The grid: defaults on read\<close>

lemma iso_date_part:
  "CHR ''T'' \<notin> set date \<Longrightarrow> takeWhile (\<lambda>c. c \<noteq> CHR ''T'') (date @ CHR ''T'' # time) = date"
  by (induction date) auto

lemma cell_value_absent:
  assumes "gr_data row (gc_name col) = None"
  shows "cell_value ts col row =
     (if gc_name col \<in> set Object_prototype then Inherited (gc_name col)
      else Data (getDefaultValueForType ts (gc_data_type col) (gc_default_value col)))"
  using assms by (simp add: cell_value_def js_or_def Get_def)

lemma cell_value_falsy_present:
  assumes "gr_data row (gc_name col) = Some v"
    and "v = JNull \<or> v = JNum 0 \<or> v = JBool False \<or> v = JStr []"
  shows "cell_value ts col row =
     Data (getDefaultValueForType ts (gc_data_type col) (gc_default_value col))"
  using assms by (auto simp: cell_value_def js_or_def Get_def)

lemma total_not_inherited: "''total'' \<notin> set Object_prototype"
  by (simp add: Object_prototype_def)

lemma created_not_inherited: "''created'' \<notin> set Object_prototype"
  by (simp add: Object_prototype_def)


lemma fieldName_examples:
  "fieldName date_column = ''created''" "fieldName constructor_column = ''constructor''"
  "fieldName (total_column d) = ''total''"
  by (simp_all add: fieldName_def date_column_def constructor_column_def total_column_def
      toLowerCase_def lower_char_def char_code_def is_space_def)

text \<open>
  C3, as the code has it. For a column whose key is missing from the row's data, and
  whose name is not one that every object inherits a property under, the cell shown is
  the column's \<open>default_value\<close> when that is a non-empty string, whatever the type.
  Otherwise (no \<open>default_value\<close>, or the empty string) it is decided by the type: \<open>0\<close>
  for \<open>number\<close>, \<open>decimal\<close> and \<open>double\<close>; \<open>false\<close> for \<open>boolean\<close> and \<open>checkbox\<close>; for
  \<open>date\<close> the date part of the ISO time stamp taken when the row is read; the empty
  string for every other type.
\<close>

theorem absent_key_default:
  assumes absent: "gr_data row (gc_name col) = None"
    and own: "gc_name col \<notin> set Object_prototype"
  shows
    "(fieldName col \<noteq> ''__proto__'' \<longrightarrow>
        mappedRow ts [col] row (fieldName col) = Some (cell_value ts col row)) \<and>
     (\<forall>v. gc_default_value col = Some v \<and> v \<noteq> [] \<longrightarrow> cell_value ts col row = Data (JStr v)) \<and>
     (gc_default_value col = None \<or> gc_default_value col = Some [] \<longrightarrow>
        (gc_data_type col \<in> {''number'', ''decimal'', ''double''} \<longrightarrow>
           cell_value ts col row = Data (JNum 0)) \<and>
        (gc_data_type col \<in> {''boolean'', ''checkbox''} \<longrightarrow>
           cell_value ts col row = Data (JBool False)) \<and>
        (gc_data_type col = ''date'' \<longrightarrow>
           (\<forall>date time. ts = date @ CHR ''T'' # time \<and> CHR ''T'' \<notin> set date \<longrightarrow>
              cell_value ts col row = Data (JStr date))) \<and>
        (gc_data_type col \<notin> {''number'', ''decimal'', ''double'', ''boolean'', ''checkbox'', ''date''} \<longrightarrow>
           cell_value ts col row = Data (JStr [])))"
proof -
  have cell: "cell_value ts col row =
      Data (getDefaultValueForType ts (gc_data_type col) (gc_default_value col))"
    using cell_value_absent[OF absent] own by simp
  have 1: "fieldName col \<noteq> ''__proto__'' \<longrightarrow>
      mappedRow ts [col] row (fieldName col) = Some (cell_value ts col row)"
    by (simp add: mappedRow_def set_property_def)
  have 2: "\<forall>v. gc_default_value col = Some v \<and> v \<noteq> [] \<longrightarrow> cell_value ts col row = Data (JStr v)"
    by (simp add: cell getDefaultValueForType_def)
  have dflt: "getDefaultValueForType ts (gc_data_type col) (gc_default_value col) =
      getDefaultValueForType ts (gc_data_type col) None"
    if "gc_default_value col = None \<or> gc_default_value col = Some []"
    using that by (auto simp: getDefaultValueForType_def)
  have 3: "cell_value ts col row = Data (JNum 0)"
    if "gc_default_value col = None \<or> gc_default_value col = Some []"
      "gc_data_type col \<in> {''number'', ''decimal'', ''double''}"
    using that(2) unfolding cell dflt[OF that(1)] by (auto simp: getDefaultValueForType_def)
  have 4: "cell_value ts col row = Data (JBool False)"
    if "gc_default_value col = None \<or> gc_default_value col = Some []"
      "gc_data_type col \<in> {''boolean'', ''checkbox''}"
    using that(2) unfolding cell dflt[OF that(1)] by (auto simp: getDefaultValueForType_def)
  have 5: "cell_value ts col row = Data (JStr date)"
    if "gc_default_value col = None \<or> gc_default_value col = Some []"
      "gc_data_type col = ''date''" "ts = date @ CHR ''T'' # time" "CHR ''T'' \<notin> set date"
    for date time
  proof -
    have "cell_value ts col row = Data (getDefaultValueForType ts ''date'' None)"
      using cell dflt[OF that(1)] that(2) by simp
    also have "\<dots> = Data (JStr (takeWhile (\<lambda>c. c \<noteq> CHR ''T'') ts))"
      by (simp add: getDefaultValueForType_def)
    also have "\<dots> = Data (JStr date)"
      unfolding that(3) by (simp add: iso_date_part[OF that(4)])
    finally show ?thesis .
  qed
  have 6: "cell_value ts col row = Data (JStr [])"
    if "gc_default_value col = None \<or> gc_default_value col = Some []"
      "gc_data_type col \<notin> {''number'', ''decimal'', ''double'', ''boolean'', ''checkbox'', ''date''}"
    using that(2) unfolding cell dflt[OF that(1)] by (simp add: getDefaultValueForType_def)
  from 1 2 3 4 5 6 show ?thesis by blast
qed

theorem absent_key_default_witness:
  "cell_value read_time (total_column (Some ''5'')) empty_row = Data (JStr ''5'') \<and>
   cell_value read_time (total_column None) empty_row = Data (JNum 0) \<and>
   cell_value read_time date_column empty_row = Data (JStr ''2024-01-15'') \<and>
   mappedRow read_time [date_column] empty_row ''created'' = Some (Data (JStr ''2024-01-15''))"
proof -
  have a: "gr_data empty_row (gc_name (total_column d)) = None" for d
    by (simp add: empty_row_def)
  have a': "gc_name (total_column d) \<notin> set Object_prototype" for d
    using total_not_inherited by (simp add: total_column_def)
  have b: "gr_data empty_row (gc_name date_column) = None"
    by (simp add: empty_row_def)
  have b': "gc_name date_column \<notin> set Object_prototype"
    using created_not_inherited by (simp add: date_column_def)
  have t: "read_time = ''2024-01-15'' @ CHR ''T'' # ''10:30:00.000Z''"
    "CHR ''T'' \<notin> set ''2024-01-15''"
    by (simp_all add: read_time_def)
  have f: "fieldName date_column = ''created''" "''created'' \<noteq> ''__proto__''"
    by (simp_all add: fieldName_examples)
  from absent_key_default[OF a[of "Some ''5''"] a', where ts = read_time]
  have 1: "cell_value read_time (total_column (Some ''5'')) empty_row = Data (JStr ''5'')"
    by (simp add: total_column_def)
  from absent_key_default[OF a[of None] a', where ts = read_time]
  have 2: "cell_value read_time (total_column None) empty_row = Data (JNum 0)"
    by (simp add: total_column_def)
  have dc: "gc_default_value date_column = None" "gc_data_type date_column = ''date''"
    by (simp_all add: date_column_def)
  from absent_key_default[OF b b', where ts = read_time] dc
  have "\<forall>date time. read_time = date @ CHR ''T'' # time \<and> CHR ''T'' \<notin> set date \<longrightarrow>
          cell_value read_time date_column empty_row = Data (JStr date)"
    by blast
  with t have 3: "cell_value read_time date_column empty_row = Data (JStr ''2024-01-15'')"
    by blast
  from absent_key_default[OF b b', where ts = read_time] f 3
  have 4: "mappedRow read_time [date_column] empty_row ''created'' =
      Some (Data (JStr ''2024-01-15''))"
    by simp
  from 1 2 3 4 show ?thesis by blast
qed

text \<open>
  C3 as stated fails for the empty string: an explicit \<open>default_value\<close> that is empty
  does not win over the default of the type. For a \<open>number\<close> column the default is then
  \<open>0\<close>, not the empty string.
\<close>

theorem empty_default_value_counterexample:
  "getDefaultValueForType read_time ''number'' (Some []) = JNum 0 \<and>
   getDefaultValueForType read_time ''number'' (Some []) \<noteq> JStr []"
  by (simp add: getDefaultValueForType_def)


text \<open>
  A row that stores \<open>0\<close>, \<open>false\<close> or the empty string under a key shows the resolved
  default in the cell of a column with that name, whatever the name is. When the name is
  not one of the inherited ones, the row is mapped to the same grid row as the row
  without that key, whatever the columns are. And the resolved default for an empty
  \<open>default_value\<close> is the one for no \<open>default_value\<close> at all.
\<close>

lemma cell_value_falsy:
  assumes "v = JNull \<or> v = JNum 0 \<or> v = JBool False \<or> v = JStr []"
    and "k \<notin> set Object_prototype"
  shows "cell_value ts col (row\<lparr>gr_data := (gr_data row)(k \<mapsto> v)\<rparr>) =
         cell_value ts col (row\<lparr>gr_data := (gr_data row)(k := None)\<rparr>)"
  using assms by (cases "gc_name col = k") (auto simp: cell_value_def js_or_def Get_def)

lemma falsy_value_mapped_as_missing:
  assumes v: "v = JNum 0 \<or> v = JBool False \<or> v = JStr []"
  shows "(k \<notin> set Object_prototype \<longrightarrow>
            mappedRow ts cols (row\<lparr>gr_data := (gr_data row)(k \<mapsto> v)\<rparr>) =
              mappedRow ts cols (row\<lparr>gr_data := (gr_data row)(k := None)\<rparr>)) \<and>
         (gc_name col = k \<longrightarrow>
            cell_value ts col (row\<lparr>gr_data := (gr_data row)(k \<mapsto> v)\<rparr>) =
              Data (getDefaultValueForType ts (gc_data_type col) (gc_default_value col))) \<and>
         getDefaultValueForType ts dt (Some []) = getDefaultValueForType ts dt None"
proof -
  from v have v': "v = JNull \<or> v = JNum 0 \<or> v = JBool False \<or> v = JStr []"
    by blast
  have 1: "mappedRow ts cols (row\<lparr>gr_data := (gr_data row)(k \<mapsto> v)\<rparr>) =
           mappedRow ts cols (row\<lparr>gr_data := (gr_data row)(k := None)\<rparr>)"
    if k: "k \<notin> set Object_prototype"
  proof -
    have "(\<lambda>col. set_property (fieldName col)
              (cell_value ts col (row\<lparr>gr_data := (gr_data row)(k \<mapsto> v)\<rparr>))) =
          (\<lambda>col. set_property (fieldName col)
              (cell_value ts col (row\<lparr>gr_data := (gr_data row)(k := None)\<rparr>)))"
      by (simp add: cell_value_falsy[OF v' k])
    then show ?thesis
      by (simp add: mappedRow_def)
  qed
  have 2: "gc_name col = k \<longrightarrow>
            cell_value ts col (row\<lparr>gr_data := (gr_data row)(k \<mapsto> v)\<rparr>) =
              Data (getDefaultValueForType ts (gc_data_type col) (gc_default_value col))"
    using cell_value_falsy_present[of "row\<lparr>gr_data := (gr_data row)(k \<mapsto> v)\<rparr>" col v ts] v'
    by simp
  have 3: "getDefaultValueForType ts dt (Some []) = getDefaultValueForType ts dt None"
    by (simp add: getDefaultValueForType_def)
  from 1 2 3 show ?thesis by blast
qed

lemma falsy_value_mapped_as_missing_example:
  "mappedRow read_time [total_column (Some ''5'')] zero_row =
     mappedRow read_time [total_column (Some ''5'')] empty_row \<and>
   cell_value read_time (total_column (Some ''5'')) zero_row = Data (JStr ''5'') \<and>
   getDefaultValueForType read_time ''number'' (Some []) = JNum 0"
proof -
  have z: "zero_row = empty_row\<lparr>gr_data := (gr_data empty_row)(''total'' \<mapsto> JNum 0)\<rparr>"
    and e: "empty_row = empty_row\<lparr>gr_data := (gr_data empty_row)(''total'' := None)\<rparr>"
    by (simp_all add: zero_row_def empty_row_def)
  have n: "gc_name (total_column (Some ''5'')) = ''total''"
    by (simp add: total_column_def)
  have g: "getDefaultValueForType read_time (gc_data_type (total_column (Some ''5'')))
             (gc_default_value (total_column (Some ''5''))) = JStr ''5''"
    "getDefaultValueForType read_time ''number'' None = JNum 0"
    by (simp_all add: total_column_def getDefaultValueForType_def)
  from falsy_value_mapped_as_missing[of "JNum 0" "''total''" read_time
      "[total_column (Some ''5'')]" empty_row "total_column (Some ''5'')" "''number''"]
  show ?thesis
    using n g z e total_not_inherited by simp
qed


section \<open>Creating a sidebar item: the sort order\<close>

lemma Math_max_with_Max: "Math_max_with xs z = Max (insert z (set xs))"
proof -
  have "fold max xs z = Max (set (z # xs))"
    by (rule Max.set_eq_fold[symmetric])
  then show ?thesis by (simp add: Math_max_with_def)
qed

lemma strict_equals_given:
  "v \<noteq> Omitted \<Longrightarrow> strict_equals p v \<longleftrightarrow> p = sql_parameter v"
  by (cases p; cases v) auto

lemma strict_equals_Omitted: "\<not> strict_equals p Omitted"
  by (cases p) simp_all

lemma set_parentSiblings:
  "set (parentSiblings d v) = {i \<in> set (sidebar_items d). strict_equals (si_parent_id i) v}"
  by (auto simp: parentSiblings_def getSidebarItems_def)

lemma nextSortOrder_Max:
  "nextSortOrder d v =
     Max (insert 0 (si_sort_order `
       {i \<in> set (sidebar_items d). strict_equals (si_parent_id i) v})) + 1"
  by (simp add: nextSortOrder_def Math_max_with_Max set_parentSiblings)

lemma createSidebarItem_Inr:
  "createSidebarItem d n p ty ic so = Inr (d1, item) \<Longrightarrow>
   si_sort_order item = so \<and> si_parent_id item = p \<and> si_name item = n \<and>
   si_id item = next_sidebar_id d \<and>
   sidebar_items d1 = sidebar_items d @ [item] \<and> dynamic_tables d1 = dynamic_tables d \<and>
   table_columns d1 = table_columns d \<and> table_data d1 = table_data d"
  by (auto simp: createSidebarItem_def Let_def split: option.splits if_splits)

lemma insert_dynamic_table_Inr:
  "insert_dynamic_table d sid tn dn de = Inr (d2, t) \<Longrightarrow>
   sidebar_items d2 = sidebar_items d \<and> dynamic_tables d2 = dynamic_tables d @ [t] \<and>
   dt_sidebar_item_id t = sid \<and> dt_table_name t = tn"
  by (auto simp: insert_dynamic_table_def Let_def split: if_splits)

lemma POST_Json:
  assumes "POST d body = (d', Json item)"
  shows "\<exists>d1. createSidebarItem d (body_name body) (sql_parameter (body_parent_id body))
               (body_item_type body) (body_icon body)
               (nextSortOrder d (body_parent_id body)) = Inr (d1, item) \<and>
              sidebar_items d' = sidebar_items d1"
  using assms
  by (auto simp: POST_def POST_with_def createDynamicTable_def
      split: if_splits sum.splits prod.splits dest: insert_dynamic_table_Inr)

text \<open>
  C7, as the code has it. For a request that gives \<open>parent_id\<close>, as \<open>null\<close> or as a
  number, the item a successful \<open>POST\<close> creates has that \<open>parent_id\<close>, and its
  \<open>sort_order\<close> is one more than the greatest of \<open>0\<close> and the \<open>sort_order\<close> values of the
  items with that \<open>parent_id\<close> (the items with a null \<open>parent_id\<close> when the request's is
  null). So it is \<open>1\<close> when there is no sibling, and the greatest sibling \<open>sort_order\<close>
  plus one when some sibling has a \<open>sort_order\<close> of at least \<open>0\<close>.
\<close>

theorem sort_order_on_create:
  assumes post: "POST d body = (d', Json item)"
    and given: "body_parent_id body \<noteq> Omitted"
  shows "si_sort_order item =
           Max (insert 0 (si_sort_order `
             {i \<in> set (sidebar_items d).
                si_parent_id i = sql_parameter (body_parent_id body)})) + 1 \<and>
         si_parent_id item = sql_parameter (body_parent_id body) \<and>
         item \<in> set (sidebar_items d') \<and>
         ({i \<in> set (sidebar_items d).
             si_parent_id i = sql_parameter (body_parent_id body)} = {} \<longrightarrow>
            si_sort_order item = 1) \<and>
         ((\<exists>i \<in> set (sidebar_items d).
              si_parent_id i = sql_parameter (body_parent_id body) \<and> 0 \<le> si_sort_order i) \<longrightarrow>
            si_sort_order item =
              Max (si_sort_order `
                {i \<in> set (sidebar_items d).
                   si_parent_id i = sql_parameter (body_parent_id body)}) + 1)"
proof -
  let ?p = "sql_parameter (body_parent_id body)"
  let ?S = "si_sort_order ` {i \<in> set (sidebar_items d). si_parent_id i = ?p}"
  from POST_Json[OF post] obtain d1 where
    c: "createSidebarItem d (body_name body) ?p (body_item_type body)
               (body_icon body) (nextSortOrder d (body_parent_id body)) = Inr (d1, item)"
    and s: "sidebar_items d' = sidebar_items d1"
    by blast
  from createSidebarItem_Inr[OF c]
  have so: "si_sort_order item = nextSortOrder d (body_parent_id body)"
    and p: "si_parent_id item = ?p"
    and m: "item \<in> set (sidebar_items d')"
    by (simp_all add: s)
  have sib: "{i \<in> set (sidebar_items d). strict_equals (si_parent_id i) (body_parent_id body)} =
      {i \<in> set (sidebar_items d). si_parent_id i = ?p}"
    by (simp add: strict_equals_given[OF given])
  have 1: "si_sort_order item = Max (insert 0 ?S) + 1"
    unfolding so nextSortOrder_Max sib ..
  have fin: "finite ?S" by simp
  have 2: "{i \<in> set (sidebar_items d). si_parent_id i = ?p} = {} \<longrightarrow>
            si_sort_order item = 1"
  proof
    assume "{i \<in> set (sidebar_items d). si_parent_id i = ?p} = {}"
    then have "?S = {}" by simp
    with 1 show "si_sort_order item = 1" by simp
  qed
  have 3: "si_sort_order item = Max ?S + 1"
    if "\<exists>i \<in> set (sidebar_items d). si_parent_id i = ?p \<and> 0 \<le> si_sort_order i"
  proof -
    from that obtain i where "i \<in> set (sidebar_items d)"
      "si_parent_id i = ?p" and i0: "0 \<le> si_sort_order i"
      by blast
    then have "si_sort_order i \<in> ?S"
      by simp
    with i0 have i: "si_sort_order i \<in> ?S" "0 \<le> si_sort_order i"
      by simp_all
    then have ne: "?S \<noteq> {}" by blast
    from i fin have "0 \<le> Max ?S"
      by (meson Max_ge order_trans)
    then have "Max (insert 0 ?S) = Max ?S"
      using fin ne by (simp add: max_def)
    with 1 show ?thesis by simp
  qed
  from 1 p m 2 3 show ?thesis by blast
qed

theorem sort_order_on_create_witness:
  "\<exists>d' item. POST example_db invoices = (d', Json item) \<and> si_sort_order item = 3 \<and>
     Max (si_sort_order `
       {i \<in> set (sidebar_items example_db).
          si_parent_id i = sql_parameter (body_parent_id invoices)}) = 2"
proof -
  have "snd (POST example_db invoices) =
      Json \<lparr>si_id = 5, si_name = ''Invoices'', si_parent_id = Some 1, si_item_type = Table,
            si_icon = Some ''table'', si_sort_order = 3\<rparr>"
    by code_simp
  then obtain d' item where u: "POST example_db invoices = (d', Json item)"
    by (metis prod.collapse)
  have g: "body_parent_id invoices \<noteq> Omitted"
    by (simp add: invoices_def)
  have S: "si_sort_order `
       {i \<in> set (sidebar_items example_db).
          si_parent_id i = sql_parameter (body_parent_id invoices)} = {1, 2}"
  proof -
    have "si_sort_order `
       {i \<in> set (sidebar_items example_db).
          si_parent_id i = sql_parameter (body_parent_id invoices)} =
       set (map si_sort_order
         (filter (\<lambda>i. si_parent_id i = sql_parameter (body_parent_id invoices))
            (sidebar_items example_db)))"
      by auto
    also have "\<dots> = {1, 2}"
      by (simp add: example_db_def example_items_def invoices_def)
    finally show ?thesis .
  qed
  have e: "\<exists>i \<in> set (sidebar_items example_db).
              si_parent_id i = sql_parameter (body_parent_id invoices) \<and> 0 \<le> si_sort_order i"
    by (simp add: example_db_def example_items_def invoices_def)
  from sort_order_on_create[OF u g] e
  have "si_sort_order item = Max (si_sort_order `
       {i \<in> set (sidebar_items example_db).
          si_parent_id i = sql_parameter (body_parent_id invoices)}) + 1"
    by blast
  then have "si_sort_order item = 3"
    unfolding S by simp
  with u S show ?thesis by simp
qed

text \<open>
  C7 as stated fails where every sibling has a negative \<open>sort_order\<close>: with the one
  root sibling at \<open>-5\<close> the new root item gets \<open>1\<close>, not \<open>-4\<close>.
\<close>

theorem sort_order_counterexample:
  "snd (POST negative_db new_root_folder) =
     Json \<lparr>si_id = 2, si_name = ''Reports'', si_parent_id = None, si_item_type = Folder,
           si_icon = Some ''folder'', si_sort_order = 1\<rparr> \<and>
   map si_sort_order (parentSiblings negative_db (body_parent_id new_root_folder)) = [-5] \<and>
   Max (set (map si_sort_order (parentSiblings negative_db (body_parent_id new_root_folder)))) + 1
     \<noteq> 1"
proof -
  have 1: "snd (POST negative_db new_root_folder) =
     Json \<lparr>si_id = 2, si_name = ''Reports'', si_parent_id = None, si_item_type = Folder,
           si_icon = Some ''folder'', si_sort_order = 1\<rparr>"
    by code_simp
  have 2: "map si_sort_order (parentSiblings negative_db (body_parent_id new_root_folder)) = [-5]"
    by code_simp
  show ?thesis unfolding 2 using 1 by simp
qed

text \<open>
  A request that leaves \<open>parent_id\<close> out is another matter: no stored item has a
  \<open>parent_id\<close> that is strictly equal to \<open>undefined\<close>, so the new item gets the
  \<open>sort_order\<close> \<open>1\<close>, and it is stored with a null \<open>parent_id\<close>, among the root items,
  whatever their \<open>sort_order\<close> values are.
\<close>

lemma sort_order_without_parent_id:
  assumes post: "POST d body = (d', Json item)"
    and omitted: "body_parent_id body = Omitted"
  shows "si_sort_order item = 1 \<and> si_parent_id item = None"
proof -
  from POST_Json[OF post] obtain d1 where
    c: "createSidebarItem d (body_name body) (sql_parameter (body_parent_id body))
               (body_item_type body) (body_icon body)
               (nextSortOrder d (body_parent_id body)) = Inr (d1, item)"
    by blast
  from createSidebarItem_Inr[OF c]
  have "si_sort_order item = nextSortOrder d Omitted" "si_parent_id item = None"
    by (simp_all add: omitted)
  then show ?thesis
    by (simp add: nextSortOrder_Max strict_equals_Omitted)
qed

lemma sort_order_without_parent_id_example:
  "snd (POST seven_db reports_without_parent_id) =
     Json \<lparr>si_id = 2, si_name = ''Reports'', si_parent_id = None, si_item_type = Folder,
           si_icon = Some ''folder'', si_sort_order = 1\<rparr> \<and>
   map (\<lambda>i. (si_parent_id i, si_sort_order i)) (sidebar_items seven_db) = [(None, 7)]"
proof -
  have 1: "snd (POST seven_db reports_without_parent_id) =
     Json \<lparr>si_id = 2, si_name = ''Reports'', si_parent_id = None, si_item_type = Folder,
           si_icon = Some ''folder'', si_sort_order = 1\<rparr>"
    by code_simp
  have 2: "map (\<lambda>i. (si_parent_id i, si_sort_order i)) (sidebar_items seven_db) = [(None, 7)]"
    by code_simp
  from 1 2 show ?thesis ..
qed

section \<open>Deleting a sidebar item\<close>

lemma remove_cascade_unfold:
  "remove_cascade ids items =
     (if filter (child_of ids) (filter (\<lambda>i. si_id i \<notin> set ids) items) = []
      then filter (\<lambda>i. si_id i \<notin> set ids) items
      else remove_cascade
             (map si_id (filter (child_of ids) (filter (\<lambda>i. si_id i \<notin> set ids) items)))
             (filter (\<lambda>i. si_id i \<notin> set ids) items))"
  by (subst remove_cascade.simps) (simp only: Let_def)

lemma remove_cascade_closed:
  "\<exists>D. set ids \<subseteq> D \<and>
       remove_cascade ids items = filter (\<lambda>i. si_id i \<notin> D) items \<and>
       (\<forall>y \<in> set (remove_cascade ids items). \<forall>q. si_parent_id y = Some q \<longrightarrow> q \<notin> D)"
proof (induction ids items rule: remove_cascade.induct)
  case (1 ids items)
  define rest where "rest = filter (\<lambda>i. si_id i \<notin> set ids) items"
  define kids where "kids = filter (child_of ids) rest"
  show ?case
  proof (cases "kids = []")
    case True
    have r: "remove_cascade ids items = rest"
      using True unfolding kids_def rest_def
      by (subst remove_cascade_unfold) (simp only: if_True simp_thms)
    have nk: "\<not> child_of ids y" if "y \<in> set rest" for y
    proof
      assume "child_of ids y"
      with that have "y \<in> set kids" by (simp add: kids_def)
      with True show False by simp
    qed
    have c: "q \<notin> set ids" if "y \<in> set rest" "si_parent_id y = Some q" for y q
      using nk[OF that(1)] that(2) by (simp add: child_of_def)
    have "set ids \<subseteq> set ids \<and>
       remove_cascade ids items = filter (\<lambda>i. si_id i \<notin> set ids) items \<and>
       (\<forall>y \<in> set (remove_cascade ids items). \<forall>q. si_parent_id y = Some q \<longrightarrow> q \<notin> set ids)"
      unfolding r using c by (auto simp only: rest_def)
    then show ?thesis by (rule exI)
  next
    case False
    have r: "remove_cascade ids items = remove_cascade (map si_id kids) rest"
      using False unfolding kids_def rest_def
      by (subst remove_cascade_unfold) (simp only: if_False simp_thms)
    from 1[OF rest_def kids_def False] obtain D where
      D: "set (map si_id kids) \<subseteq> D"
        "remove_cascade (map si_id kids) rest = filter (\<lambda>i. si_id i \<notin> D) rest"
        "\<forall>y \<in> set (remove_cascade (map si_id kids) rest). \<forall>q. si_parent_id y = Some q \<longrightarrow> q \<notin> D"
      by blast
    have a: "set ids \<subseteq> D \<union> set ids" by blast
    have ff: "filter (\<lambda>i. si_id i \<notin> D) (filter (\<lambda>i. si_id i \<notin> set ids) items) =
          filter (\<lambda>i. si_id i \<notin> D \<union> set ids) items"
      by (induction items) auto
    have "remove_cascade ids items = filter (\<lambda>i. si_id i \<notin> D) rest"
      using r D(2) by (rule trans)
    also have "\<dots> = filter (\<lambda>i. si_id i \<notin> D \<union> set ids) items"
      unfolding rest_def by (rule ff)
    finally have b: "remove_cascade ids items = filter (\<lambda>i. si_id i \<notin> D \<union> set ids) items" .
    have c: "q \<notin> D \<union> set ids"
      if y: "y \<in> set (remove_cascade ids items)" and q: "si_parent_id y = Some q" for y q
    proof -
      from y have "y \<in> set (filter (\<lambda>i. si_id i \<notin> D) rest)"
        unfolding r D(2) .
      then have yr: "y \<in> set rest" and yD: "si_id y \<notin> D"
        by simp_all
      have "q \<notin> set ids"
      proof
        assume "q \<in> set ids"
        with q have "child_of ids y" by (simp add: child_of_def)
        with yr have "y \<in> set kids" by (simp add: kids_def)
        with D(1) have "si_id y \<in> D" by auto
        with yD show False by simp
      qed
      moreover from D(3) y q have "q \<notin> D"
        unfolding r by blast
      ultimately show ?thesis by simp
    qed
    from a b c show ?thesis by blast
  qed
qed

lemma closed_descendants:
  assumes kept: "kept = filter (\<lambda>i. si_id i \<notin> D) items"
    and closed: "\<forall>y \<in> set kept. \<forall>q. si_parent_id y = Some q \<longrightarrow> q \<notin> D"
    and children: "\<forall>x \<in> set items. si_parent_id x = Some a \<longrightarrow> si_id x \<in> D"
  shows "s \<in> descendants items a \<Longrightarrow> s \<in> D"
proof (induction rule: descendants.induct)
  case (child x)
  with children show ?case by blast
next
  case (deeper p x)
  show ?case
  proof (rule ccontr)
    assume "si_id x \<notin> D"
    with deeper(2) have "x \<in> set kept" by (simp add: kept)
    with closed deeper(3) have "p \<notin> D" by blast
    with deeper.IH show False by simp
  qed
qed

lemma descendants_are_ids: "s \<in> descendants items a \<Longrightarrow> s \<in> si_id ` set items"
  by (induction rule: descendants.induct) auto

lemma shrinks_refl: "shrinks e e"
  by (simp add: shrinks_def)

lemma shrinks_trans:
  assumes "shrinks e e'" "shrinks e' e''"
  shows "shrinks e e''"
  unfolding shrinks_def
proof (intro conjI ballI impI)
  show "set (sidebar_items e'') \<subseteq> set (sidebar_items e)"
    using assms unfolding shrinks_def by blast
  show "set (dynamic_tables e'') \<subseteq> set (dynamic_tables e)"
    using assms unfolding shrinks_def by blast
  show "set (table_columns e'') \<subseteq> set (table_columns e)"
    using assms unfolding shrinks_def by blast
  show "set (table_data e'') \<subseteq> set (table_data e)"
    using assms unfolding shrinks_def by blast
next
  fix t c
  assume t: "t \<in> set (dynamic_tables e)" "t \<notin> set (dynamic_tables e'')"
    and c: "c \<in> set (table_columns e'')"
  show "col_table_id c \<noteq> dt_id t"
  proof (cases "t \<in> set (dynamic_tables e')")
    case True
    with t(2) c assms(2) show ?thesis unfolding shrinks_def by blast
  next
    case False
    from c assms(2) have "c \<in> set (table_columns e')" unfolding shrinks_def by blast
    with False t(1) assms(1) show ?thesis unfolding shrinks_def by blast
  qed
next
  fix t r
  assume t: "t \<in> set (dynamic_tables e)" "t \<notin> set (dynamic_tables e'')"
    and r: "r \<in> set (table_data e'')"
  show "row_table_id r \<noteq> dt_id t"
  proof (cases "t \<in> set (dynamic_tables e')")
    case True
    with t(2) r assms(2) show ?thesis unfolding shrinks_def by blast
  next
    case False
    from r assms(2) have "r \<in> set (table_data e')" unfolding shrinks_def by blast
    with False t(1) assms(1) show ?thesis unfolding shrinks_def by blast
  qed
qed

lemma subtree_gone_subset:
  "subtree_gone d S e \<Longrightarrow> S' \<subseteq> S \<Longrightarrow> subtree_gone d S' e"
  unfolding subtree_gone_def by blast

lemma subtree_gone_union:
  "subtree_gone d S e \<Longrightarrow> subtree_gone d S' e \<Longrightarrow> subtree_gone d (S \<union> S') e"
  unfolding subtree_gone_def by blast

lemma subtree_gone_later:
  assumes "subtree_gone d S e" "shrinks e e'"
  shows "subtree_gone d S e'"
  using assms unfolding subtree_gone_def shrinks_def by blast

lemma subtree_gone_earlier:
  assumes de: "shrinks d e" and g: "subtree_gone e S e'" and ee: "shrinks e e'"
  shows "subtree_gone d S e'"
  unfolding subtree_gone_def
proof (intro conjI ballI impI)
  fix x assume "x \<in> set (sidebar_items e')"
  with g show "si_id x \<notin> S" unfolding subtree_gone_def by blast
next
  fix t assume "t \<in> set (dynamic_tables e')"
  with g show "dt_sidebar_item_id t \<notin> S" unfolding subtree_gone_def by blast
next
  fix t c
  assume t: "t \<in> set (dynamic_tables d)" "dt_sidebar_item_id t \<in> S"
    and c: "c \<in> set (table_columns e')"
  show "col_table_id c \<noteq> dt_id t"
  proof (cases "t \<in> set (dynamic_tables e)")
    case True
    with t(2) c g show ?thesis unfolding subtree_gone_def by blast
  next
    case False
    from c ee have "c \<in> set (table_columns e)" unfolding shrinks_def by blast
    with False t(1) de show ?thesis unfolding shrinks_def by blast
  qed
next
  fix t r
  assume t: "t \<in> set (dynamic_tables d)" "dt_sidebar_item_id t \<in> S"
    and r: "r \<in> set (table_data e')"
  show "row_table_id r \<noteq> dt_id t"
  proof (cases "t \<in> set (dynamic_tables e)")
    case True
    with t(2) r g show ?thesis unfolding subtree_gone_def by blast
  next
    case False
    from r ee have "r \<in> set (table_data e)" unfolding shrinks_def by blast
    with False t(1) de show ?thesis unfolding shrinks_def by blast
  qed
qed

lemma sql_delete_dynamic_tables_effect:
  "sidebar_items (sql_delete_dynamic_tables q d) = sidebar_items d \<and>
   dynamic_tables (sql_delete_dynamic_tables q d) = filter (\<lambda>t. \<not> q t) (dynamic_tables d) \<and>
   table_columns (sql_delete_dynamic_tables q d) =
     filter (\<lambda>c. col_table_id c \<notin> dt_id ` {t \<in> set (dynamic_tables d). q t}) (table_columns d) \<and>
   table_data (sql_delete_dynamic_tables q d) =
     filter (\<lambda>r. row_table_id r \<notin> dt_id ` {t \<in> set (dynamic_tables d). q t}) (table_data d)"
  by (simp add: sql_delete_dynamic_tables_def Let_def)

lemma sql_delete_dynamic_tables_shrinks: "shrinks d (sql_delete_dynamic_tables q d)"
proof -
  note e = sql_delete_dynamic_tables_effect[of q d]
  show ?thesis
    unfolding shrinks_def
  proof (intro conjI ballI impI)
    fix t c
    assume t: "t \<in> set (dynamic_tables d)" "t \<notin> set (dynamic_tables (sql_delete_dynamic_tables q d))"
      and c: "c \<in> set (table_columns (sql_delete_dynamic_tables q d))"
    from t e have "q t" by simp
    with t(1) have "dt_id t \<in> dt_id ` {t \<in> set (dynamic_tables d). q t}" by blast
    with c e show "col_table_id c \<noteq> dt_id t" by auto
  next
    fix t r
    assume t: "t \<in> set (dynamic_tables d)" "t \<notin> set (dynamic_tables (sql_delete_dynamic_tables q d))"
      and r: "r \<in> set (table_data (sql_delete_dynamic_tables q d))"
    from t e have "q t" by simp
    with t(1) have "dt_id t \<in> dt_id ` {t \<in> set (dynamic_tables d). q t}" by blast
    with r e show "row_table_id r \<noteq> dt_id t" by auto
  qed (simp_all add: e)
qed

lemma sql_delete_sidebar_items_effect:
  "\<exists>D. set (map si_id (filter p (sidebar_items e))) \<subseteq> D \<and>
       sidebar_items (sql_delete_sidebar_items p e) =
         filter (\<lambda>i. si_id i \<notin> D) (sidebar_items e) \<and>
       (\<forall>y \<in> set (sidebar_items (sql_delete_sidebar_items p e)).
          \<forall>q. si_parent_id y = Some q \<longrightarrow> q \<notin> D) \<and>
       subtree_gone e (D \<inter> si_id ` set (sidebar_items e)) (sql_delete_sidebar_items p e) \<and>
       shrinks e (sql_delete_sidebar_items p e)"
proof -
  let ?items = "sidebar_items e"
  let ?ids = "map si_id (filter p ?items)"
  let ?kept = "remove_cascade ?ids ?items"
  let ?gone = "filter (\<lambda>a. a \<notin> set (map si_id ?kept)) (map si_id ?items)"
  let ?q = "\<lambda>t. dt_sidebar_item_id t \<in> set ?gone"
  let ?e1 = "e\<lparr>sidebar_items := ?kept\<rparr>"
  let ?e' = "sql_delete_sidebar_items p e"
  from remove_cascade_closed[of ?ids ?items] obtain D where
    D: "set ?ids \<subseteq> D" "?kept = filter (\<lambda>i. si_id i \<notin> D) ?items"
      "\<forall>y \<in> set ?kept. \<forall>q. si_parent_id y = Some q \<longrightarrow> q \<notin> D"
    by blast
  have e': "?e' = sql_delete_dynamic_tables ?q ?e1"
    by (simp add: sql_delete_sidebar_items_def Let_def)
  note eff = sql_delete_dynamic_tables_effect[of ?q ?e1]
  have items': "sidebar_items ?e' = ?kept"
    unfolding e' using eff by simp
  have tabs': "dynamic_tables ?e' = filter (\<lambda>t. \<not> ?q t) (dynamic_tables e)"
    unfolding e' using eff by simp
  have gone: "set ?gone = D \<inter> si_id ` set ?items"
  proof -
    have "si_id ` set ?kept = {a \<in> si_id ` set ?items. a \<notin> D}"
      unfolding D(2) by auto
    then show ?thesis by auto
  qed
  have sh1: "shrinks e ?e1"
    unfolding shrinks_def D(2) by simp
  have "shrinks ?e1 ?e'"
    unfolding e' by (rule sql_delete_dynamic_tables_shrinks)
  with sh1 have sh: "shrinks e ?e'"
    by (rule shrinks_trans)
  have g1: "si_id x \<notin> D \<inter> si_id ` set ?items" if "x \<in> set (sidebar_items ?e')" for x
    using that unfolding items' D(2) by simp
  have g2: "dt_sidebar_item_id t \<notin> D \<inter> si_id ` set ?items"
    if "t \<in> set (dynamic_tables ?e')" for t
    using that unfolding tabs' gone by simp
  have g3: "(\<forall>c \<in> set (table_columns ?e'). col_table_id c \<noteq> dt_id t) \<and>
            (\<forall>r \<in> set (table_data ?e'). row_table_id r \<noteq> dt_id t)"
    if t: "t \<in> set (dynamic_tables e)" "dt_sidebar_item_id t \<in> D \<inter> si_id ` set ?items" for t
  proof -
    from t have "t \<notin> set (dynamic_tables ?e')"
      using g2 by blast
    with t(1) sh show ?thesis
      unfolding shrinks_def by blast
  qed
  have sg: "subtree_gone e (D \<inter> si_id ` set ?items) ?e'"
    unfolding subtree_gone_def using g1 g2 g3 by blast
  have i2: "sidebar_items ?e' = filter (\<lambda>i. si_id i \<notin> D) ?items"
    using items' D(2) by (rule trans)
  have c3: "\<forall>y \<in> set (sidebar_items ?e'). \<forall>q. si_parent_id y = Some q \<longrightarrow> q \<notin> D"
    unfolding items' by (rule D(3))
  show ?thesis
    by (rule exI[of _ D]) (rule conjI[OF D(1) conjI[OF i2 conjI[OF c3 conjI[OF sg sh]]]])
qed

text \<open>\<open>DELETE FROM sidebar_items WHERE id = a\<close> removes an existing item with all that
  is below it.\<close>

lemma delete_by_id_removes_subtree:
  assumes a: "a \<in> si_id ` set (sidebar_items e)"
  shows "subtree_gone e (insert a (descendants (sidebar_items e) a))
           (sql_delete_sidebar_items (\<lambda>i. si_id i = a) e) \<and>
         shrinks e (sql_delete_sidebar_items (\<lambda>i. si_id i = a) e)"
proof -
  let ?items = "sidebar_items e"
  let ?e' = "sql_delete_sidebar_items (\<lambda>i. si_id i = a) e"
  from sql_delete_sidebar_items_effect[of "\<lambda>i. si_id i = a" e] obtain D where
    D: "set (map si_id (filter (\<lambda>i. si_id i = a) ?items)) \<subseteq> D"
      "sidebar_items ?e' = filter (\<lambda>i. si_id i \<notin> D) ?items"
      "\<forall>y \<in> set (sidebar_items ?e'). \<forall>q. si_parent_id y = Some q \<longrightarrow> q \<notin> D"
      "subtree_gone e (D \<inter> si_id ` set ?items) ?e'"
      "shrinks e ?e'"
    by blast
  from a D(1) have aD: "a \<in> D" by auto
  have children: "\<forall>x \<in> set ?items. si_parent_id x = Some a \<longrightarrow> si_id x \<in> D"
  proof (intro ballI impI, rule ccontr)
    fix x assume x: "x \<in> set ?items" "si_parent_id x = Some a" "si_id x \<notin> D"
    then have "x \<in> set (sidebar_items ?e')" by (simp add: D(2))
    with D(3) x(2) have "a \<notin> D" by blast
    with aD show False by simp
  qed
  have "s \<in> D" if "s \<in> descendants ?items a" for s
    using closed_descendants[OF D(2) D(3) children that] .
  then have "insert a (descendants ?items a) \<subseteq> D \<inter> si_id ` set ?items"
    using aD a descendants_are_ids[of _ ?items a] by blast
  with D(4) have "subtree_gone e (insert a (descendants ?items a)) ?e'"
    by (rule subtree_gone_subset)
  with D(5) show ?thesis by simp
qed

text \<open>\<open>DELETE FROM sidebar_items WHERE parent_id = a\<close> removes all that is below \<open>a\<close>;
  \<open>a\<close> itself stays unless it is below itself.\<close>

lemma delete_children_removes_descendants:
  "\<exists>D. descendants (sidebar_items e) a \<subseteq> D \<and>
       sidebar_items (sql_delete_sidebar_items (\<lambda>i. si_parent_id i = Some a) e) =
         filter (\<lambda>i. si_id i \<notin> D) (sidebar_items e) \<and>
       subtree_gone e (D \<inter> si_id ` set (sidebar_items e))
         (sql_delete_sidebar_items (\<lambda>i. si_parent_id i = Some a) e) \<and>
       shrinks e (sql_delete_sidebar_items (\<lambda>i. si_parent_id i = Some a) e)"
proof -
  let ?items = "sidebar_items e"
  let ?e' = "sql_delete_sidebar_items (\<lambda>i. si_parent_id i = Some a) e"
  from sql_delete_sidebar_items_effect[of "\<lambda>i. si_parent_id i = Some a" e] obtain D where
    D: "set (map si_id (filter (\<lambda>i. si_parent_id i = Some a) ?items)) \<subseteq> D"
      "sidebar_items ?e' = filter (\<lambda>i. si_id i \<notin> D) ?items"
      "\<forall>y \<in> set (sidebar_items ?e'). \<forall>q. si_parent_id y = Some q \<longrightarrow> q \<notin> D"
      "subtree_gone e (D \<inter> si_id ` set ?items) ?e'"
      "shrinks e ?e'"
    by blast
  have children: "\<forall>x \<in> set ?items. si_parent_id x = Some a \<longrightarrow> si_id x \<in> D"
    using D(1) by auto
  have "s \<in> D" if "s \<in> descendants ?items a" for s
    using closed_descendants[OF D(2) D(3) children that] .
  then have sub: "descendants ?items a \<subseteq> D" by blast
  show ?thesis
    by (rule exI[of _ D]) (rule conjI[OF sub conjI[OF D(2) conjI[OF D(4) D(5)]]])
qed

lemma find_id_Some:
  "find (\<lambda>i. si_id i = a) items = Some it \<Longrightarrow> it \<in> set items \<and> si_id it = a"
  by (induction items) (auto split: if_splits)

text \<open>
  C5. For a folder item \<open>a\<close> of the store, \<open>deleteSidebarItem\<close> succeeds, and in the
  store it leaves there is no sidebar item whose id is \<open>a\<close> or the id of a descendant
  of \<open>a\<close> (at any depth), no dynamic table bound to such an item, and no column and no
  row of a dynamic table that was bound to such an item. The descendants and all that
  hangs on them are already gone in the store on which the last statement, the delete of
  the folder's own row, runs. The one-statement revision of \<open>deleteSidebarItem\<close> leaves
  nothing of the subtree either.
\<close>

theorem deleteSidebarItem_removes_subtree:
  assumes f: "find (\<lambda>i. si_id i = a) (sidebar_items d) = Some it"
    and folder: "si_item_type it = Folder"
  shows "(\<exists>d'. deleteSidebarItem_v2 d a = Inr d' \<and>
            subtree_gone d (insert a (descendants (sidebar_items d) a)) d') \<and>
         subtree_gone d (descendants (sidebar_items d) a) (delete_contents d a it) \<and>
         subtree_gone d (insert a (descendants (sidebar_items d) a)) (deleteSidebarItem_v1 d a)"
proof -
  let ?items = "sidebar_items d"
  let ?desc = "descendants ?items a"
  from find_id_Some[OF f] have it: "it \<in> set ?items" "si_id it = a"
    by simp_all
  then have a: "a \<in> si_id ` set ?items" by blast
  have v1: "subtree_gone d (insert a ?desc) (deleteSidebarItem_v1 d a)"
    unfolding deleteSidebarItem_v1_def using delete_by_id_removes_subtree[OF a] by simp
  define tableIds where
    "tableIds = map si_id (filter (\<lambda>i. si_parent_id i = Some a \<and> si_item_type i = Table) ?items)"
  define d1 where
    "d1 = (if tableIds \<noteq> []
           then sql_delete_dynamic_tables (\<lambda>t. dt_sidebar_item_id t \<in> set tableIds) d else d)"
  define d2 where "d2 = sql_delete_sidebar_items (\<lambda>i. si_parent_id i = Some a) d1"
  define d' where "d' = sql_delete_sidebar_items (\<lambda>i. si_id i = a) d2"
  have contents: "delete_contents d a it = d2"
    by (simp add: delete_contents_def folder Let_def d2_def d1_def tableIds_def)
  have v2: "deleteSidebarItem_v2 d a = Inr d'"
    by (simp add: deleteSidebarItem_v2_def f contents d'_def)
  have s01: "shrinks d d1"
    unfolding d1_def by (simp add: shrinks_refl sql_delete_dynamic_tables_shrinks)
  have items1: "sidebar_items d1 = ?items"
    unfolding d1_def by (simp add: sql_delete_dynamic_tables_effect)
  from delete_children_removes_descendants[of d1 a] obtain D where
    D: "descendants (sidebar_items d1) a \<subseteq> D"
      "sidebar_items d2 = filter (\<lambda>i. si_id i \<notin> D) (sidebar_items d1)"
      "subtree_gone d1 (D \<inter> si_id ` set (sidebar_items d1)) d2"
      "shrinks d1 d2"
    unfolding d2_def by blast
  have s02: "shrinks d d2"
    using s01 D(4) by (rule shrinks_trans)
  from sql_delete_sidebar_items_effect[of "\<lambda>i. si_id i = a" d2]
  have s2': "shrinks d2 d'"
    unfolding d'_def by blast
  have "?desc \<subseteq> D \<inter> si_id ` set (sidebar_items d1)"
    using D(1) descendants_are_ids[of _ ?items a] unfolding items1 by blast
  with D(3) have "subtree_gone d1 ?desc d2"
    by (rule subtree_gone_subset)
  with s01 have desc2: "subtree_gone d ?desc d2"
    using D(4) by (rule subtree_gone_earlier)
  then have desc': "subtree_gone d ?desc d'"
    using s2' by (rule subtree_gone_later)
  have root': "subtree_gone d {a} d'"
  proof (cases "a \<in> si_id ` set (sidebar_items d2)")
    case True
    from delete_by_id_removes_subtree[OF True]
    have "subtree_gone d2 (insert a (descendants (sidebar_items d2) a)) d'"
      unfolding d'_def by simp
    then have "subtree_gone d2 {a} d'"
      by (rule subtree_gone_subset) simp
    with s02 show ?thesis
      using s2' by (rule subtree_gone_earlier)
  next
    case False
    have "a \<in> D"
    proof (rule ccontr)
      assume "a \<notin> D"
      with it have "it \<in> set (sidebar_items d2)"
        unfolding D(2) items1 by simp
      with it(2) False show False by force
    qed
    with a have "{a} \<subseteq> D \<inter> si_id ` set (sidebar_items d1)"
      unfolding items1 by simp
    with D(3) have "subtree_gone d1 {a} d2"
      by (rule subtree_gone_subset)
    with s01 have "subtree_gone d {a} d2"
      using D(4) by (rule subtree_gone_earlier)
    then show ?thesis
      using s2' by (rule subtree_gone_later)
  qed
  from root' desc' have "subtree_gone d ({a} \<union> ?desc) d'"
    by (rule subtree_gone_union)
  then have all': "subtree_gone d (insert a ?desc) d'"
    by simp
  from v2 all' have 1: "\<exists>d'. deleteSidebarItem_v2 d a = Inr d' \<and> subtree_gone d (insert a ?desc) d'"
    by blast
  from desc2 have 2: "subtree_gone d ?desc (delete_contents d a it)"
    unfolding contents .
  from 1 2 v1 show ?thesis by blast
qed

text \<open>Deleting the root folder \<open>Tables\<close> of the example store: \<open>Orders\<close>, two levels
  down, goes with its dynamic table, its column and its row.\<close>

theorem deleteSidebarItem_removes_subtree_witness:
  "\<exists>d'. deleteSidebarItem_v2 example_db 1 = Inr d' \<and>
     4 \<in> descendants (sidebar_items example_db) 1 \<and>
     4 \<notin> set (map si_id (sidebar_items d')) \<and>
     4 \<notin> set (map dt_sidebar_item_id (dynamic_tables d')) \<and>
     2 \<notin> set (map col_table_id (table_columns d')) \<and>
     2 \<notin> set (map row_table_id (table_data d'))"
proof -
  have f: "find (\<lambda>i. si_id i = 1) (sidebar_items example_db) = Some (hd example_items)"
    by (simp add: example_db_def example_items_def)
  have folder: "si_item_type (hd example_items) = Folder"
    by (simp add: example_items_def)
  have i3: "example_items ! 2 \<in> set (sidebar_items example_db)"
    "si_parent_id (example_items ! 2) = Some 1" "si_id (example_items ! 2) = 3"
    and i4: "example_items ! 3 \<in> set (sidebar_items example_db)"
    "si_parent_id (example_items ! 3) = Some 3" "si_id (example_items ! 3) = 4"
    by (simp_all add: example_db_def example_items_def)
  from descendants.child[OF i3(1,2)] have "3 \<in> descendants (sidebar_items example_db) 1"
    by (simp add: i3(3))
  from descendants.deeper[OF this i4(1,2)] have d4: "4 \<in> descendants (sidebar_items example_db) 1"
    by (simp add: i4(3))
  have t: "example_tables ! 1 \<in> set (dynamic_tables example_db)"
    "dt_sidebar_item_id (example_tables ! 1) = 4" "dt_id (example_tables ! 1) = 2"
    by (simp_all add: example_db_def example_tables_def)
  from deleteSidebarItem_removes_subtree[OF f folder] obtain d' where
    v: "deleteSidebarItem_v2 example_db 1 = Inr d'"
    and g: "subtree_gone example_db (insert 1 (descendants (sidebar_items example_db) 1)) d'"
    by blast
  from g d4 have 1: "4 \<notin> set (map si_id (sidebar_items d'))"
    unfolding subtree_gone_def by auto
  from g d4 have 2: "4 \<notin> set (map dt_sidebar_item_id (dynamic_tables d'))"
    unfolding subtree_gone_def by auto
  from g d4 t have "(\<forall>c \<in> set (table_columns d'). col_table_id c \<noteq> 2) \<and>
      (\<forall>r \<in> set (table_data d'). row_table_id r \<noteq> 2)"
    unfolding subtree_gone_def by (metis insertCI)
  then have 3: "2 \<notin> set (map col_table_id (table_columns d'))"
    and 4: "2 \<notin> set (map row_table_id (table_data d'))"
    by auto
  from v d4 1 2 3 4 show ?thesis by blast
qed

section \<open>Creating a table item: the compensating delete\<close>

lemma remove_cascade_fresh:
  assumes fresh: "\<forall>i \<in> set items. si_id i \<noteq> n"
    and leaf: "\<forall>i \<in> set items. si_parent_id i \<noteq> Some n"
    and item: "si_id item = n"
  shows "remove_cascade [n] (items @ [item]) = items"
proof -
  have rest: "filter (\<lambda>i. si_id i \<notin> set [n]) (items @ [item]) = items"
    using fresh item by (simp add: filter_id_conv)
  have kids: "filter (child_of [n]) items = []"
    using leaf by (auto simp: filter_empty_conv child_of_def split: option.splits)
  show ?thesis
    by (subst remove_cascade_unfold) (simp only: rest kids if_True simp_thms)
qed

lemma sql_delete_dynamic_tables_none:
  assumes "\<forall>t \<in> set (dynamic_tables e). \<not> q t"
  shows "dynamic_tables (sql_delete_dynamic_tables q e) = dynamic_tables e \<and>
         table_columns (sql_delete_dynamic_tables q e) = table_columns e \<and>
         table_data (sql_delete_dynamic_tables q e) = table_data e \<and>
         sidebar_items (sql_delete_dynamic_tables q e) = sidebar_items e"
proof -
  from assms have em: "{t \<in> set (dynamic_tables e). q t} = {}" by blast
  have f: "filter (\<lambda>t. \<not> q t) (dynamic_tables e) = dynamic_tables e"
    using assms by (simp add: filter_id_conv)
  show ?thesis
    unfolding sql_delete_dynamic_tables_effect[THEN conjunct1]
      sql_delete_dynamic_tables_effect[THEN conjunct2, THEN conjunct1]
      sql_delete_dynamic_tables_effect[THEN conjunct2, THEN conjunct2, THEN conjunct1]
      sql_delete_dynamic_tables_effect[THEN conjunct2, THEN conjunct2, THEN conjunct2]
      em f
    by simp
qed

lemma find_fresh:
  "\<forall>i \<in> set items. si_id i \<noteq> n \<Longrightarrow> si_id item = n \<Longrightarrow>
   find (\<lambda>i. si_id i = n) (items @ [item]) = Some item"
  by (induction items) auto

text \<open>
  The later revision of the handler compensates. On a store in which the next id of
  \<open>sidebar_items\<close> is not in use (no item has it, none has it as parent, no dynamic
  table is bound to it), a \<open>POST\<close> that answers with an error leaves the four
  relations as they were: when the dynamic table of a new table item cannot be created, the
  item created just before is deleted again.
\<close>

lemma POST_part_003_compensates:
  assumes fresh: "\<forall>i \<in> set (sidebar_items d). si_id i \<noteq> next_sidebar_id d"
    and leaf: "\<forall>i \<in> set (sidebar_items d). si_parent_id i \<noteq> Some (next_sidebar_id d)"
    and unbound: "\<forall>t \<in> set (dynamic_tables d). dt_sidebar_item_id t \<noteq> next_sidebar_id d"
    and post: "POST_part_003 d body = (d', ServerError msg e)"
  shows "sidebar_items d' = sidebar_items d \<and> dynamic_tables d' = dynamic_tables d \<and>
         table_columns d' = table_columns d \<and> table_data d' = table_data d"
proof (cases "createSidebarItem d (body_name body) (sql_parameter (body_parent_id body))
               (body_item_type body) (body_icon body) (nextSortOrder d (body_parent_id body))")
  case (Inl e0)
  with post have "d' = d"
    by (auto simp: POST_part_003_def split: if_splits)
  then show ?thesis by simp
next
  case (Inr r)
  obtain d1 item where r: "r = (d1, item)" by (cases r)
  let ?n = "next_sidebar_id d"
  note c = createSidebarItem_Inr[OF Inr[unfolded r]]
  from c have n: "si_id item = ?n" and items1: "sidebar_items d1 = sidebar_items d @ [item]"
    and rest1: "dynamic_tables d1 = dynamic_tables d" "table_columns d1 = table_columns d"
      "table_data d1 = table_data d"
    by simp_all
  from post Inr r have table: "body_item_type body = ''table''"
    by (auto simp: POST_part_003_def split: if_splits)
  with Inr r have ty: "si_item_type item = Table"
    by (auto simp: createSidebarItem_def item_type_of_def Let_def split: if_splits)
  have found: "find (\<lambda>i. si_id i = ?n) (sidebar_items d1) = Some item"
    unfolding items1 using fresh n by (rule find_fresh)
  define e1 where "e1 = sql_delete_dynamic_tables (\<lambda>t. dt_sidebar_item_id t = ?n) d1"
  have contents: "delete_contents d1 ?n item = e1"
    by (simp add: delete_contents_def ty e1_def)
  have "\<forall>t \<in> set (dynamic_tables d1). \<not> dt_sidebar_item_id t = ?n"
    using unbound by (simp add: rest1)
  from sql_delete_dynamic_tables_none[OF this]
  have e1: "sidebar_items e1 = sidebar_items d @ [item]" "dynamic_tables e1 = dynamic_tables d"
    "table_columns e1 = table_columns d" "table_data e1 = table_data d"
    unfolding e1_def by (simp_all add: items1 rest1)
  define d2 where "d2 = sql_delete_sidebar_items (\<lambda>i. si_id i = ?n) e1"
  have del: "deleteSidebarItem_v2 d1 ?n = Inr d2"
    by (simp add: deleteSidebarItem_v2_def found contents d2_def)
  have ids: "map si_id (filter (\<lambda>i. si_id i = ?n) (sidebar_items e1)) = [?n]"
    using fresh n by (simp add: e1 filter_empty_conv)
  have kept: "remove_cascade [?n] (sidebar_items e1) = sidebar_items d"
    unfolding e1 by (rule remove_cascade_fresh[OF fresh leaf n])
  have gone: "filter (\<lambda>a. a \<notin> set (map si_id (sidebar_items d))) (map si_id (sidebar_items e1)) = [?n]"
    using fresh n by (auto simp: e1 filter_empty_conv)
  have d2': "d2 = sql_delete_dynamic_tables (\<lambda>t. dt_sidebar_item_id t \<in> set [?n])
                    (e1\<lparr>sidebar_items := sidebar_items d\<rparr>)"
    unfolding d2_def sql_delete_sidebar_items_def Let_def ids kept gone ..
  have "\<forall>t \<in> set (dynamic_tables (e1\<lparr>sidebar_items := sidebar_items d\<rparr>)).
          \<not> dt_sidebar_item_id t \<in> set [?n]"
    using unbound by (simp add: e1)
  from sql_delete_dynamic_tables_none[OF this]
  have d2: "sidebar_items d2 = sidebar_items d" "dynamic_tables d2 = dynamic_tables d"
    "table_columns d2 = table_columns d" "table_data d2 = table_data d"
    unfolding d2' by (simp_all add: e1)
  from post Inr r table del n have "d' = d2"
    by (auto simp: POST_part_003_def split: if_splits sum.splits)
  with d2 show ?thesis by simp
qed

text \<open>On the example store the request that cannot be given a table name is answered
  with the error of \<open>createDynamicTable\<close>, and the sidebar is as before.\<close>

lemma POST_part_003_example:
  "snd (POST_part_003 example_db unnameable) =
     ServerError ''Failed to create sidebar item''
       (Error ''Missing required fields for creating dynamic table'') \<and>
   sidebar_items (fst (POST_part_003 example_db unnameable)) = sidebar_items example_db"
proof -
  have 1: "snd (POST_part_003 example_db unnameable) =
     ServerError ''Failed to create sidebar item''
       (Error ''Missing required fields for creating dynamic table'')"
    by code_simp
  have 2: "sidebar_items (fst (POST_part_003 example_db unnameable)) = sidebar_items example_db"
    by code_simp
  from 1 2 show ?thesis ..
qed

text \<open>
  C1 fails on the handler of src/app/api/sidebar/route.ts, which has no compensating
  delete. A table named \<open>Customers\<close> exists; a second \<open>POST\<close> with that name creates the
  sidebar item \<open>5\<close>, fails to create its dynamic table (the table name \<open>customers\<close> is
  taken) and answers with that error. Item \<open>5\<close>, of type table, is still in the store
  afterwards, and no dynamic table is bound to it. The same happens with the last
  revision of \<open>createDynamicTable\<close> and a name that normalizes to the empty string: the
  required-fields check throws, and item \<open>5\<close> stays.
\<close>

theorem POST_leaves_orphan:
  "snd (POST example_db customers_again) =
     ServerError ''Failed to create sidebar item'' (UniqueViolation ''dynamic_tables.table_name'') \<and>
   map (\<lambda>i. (si_id i, si_item_type i)) (sidebar_items (fst (POST example_db customers_again))) =
     [(1, Folder), (2, Table), (3, Folder), (4, Table), (5, Table)] \<and>
   map dt_sidebar_item_id (dynamic_tables (fst (POST example_db customers_again))) = [2, 4] \<and>
   snd (POST_with createDynamicTable_v3 example_db unnameable) =
     ServerError ''Failed to create sidebar item''
       (Error ''Missing required fields for creating dynamic table'') \<and>
   map (\<lambda>i. (si_id i, si_item_type i))
       (sidebar_items (fst (POST_with createDynamicTable_v3 example_db unnameable))) =
     [(1, Folder), (2, Table), (3, Folder), (4, Table), (5, Table)] \<and>
   map dt_sidebar_item_id
       (dynamic_tables (fst (POST_with createDynamicTable_v3 example_db unnameable))) = [2, 4]"
proof -
  have 1: "snd (POST example_db customers_again) =
     ServerError ''Failed to create sidebar item'' (UniqueViolation ''dynamic_tables.table_name'')"
    by code_simp
  have 2: "map (\<lambda>i. (si_id i, si_item_type i)) (sidebar_items (fst (POST example_db customers_again))) =
     [(1, Folder), (2, Table), (3, Folder), (4, Table), (5, Table)]"
    by code_simp
  have 3: "map dt_sidebar_item_id (dynamic_tables (fst (POST example_db customers_again))) = [2, 4]"
    by code_simp
  have 4: "snd (POST_with createDynamicTable_v3 example_db unnameable) =
     ServerError ''Failed to create sidebar item''
       (Error ''Missing required fields for creating dynamic table'')"
    by code_simp
  have 5: "map (\<lambda>i. (si_id i, si_item_type i))
       (sidebar_items (fst (POST_with createDynamicTable_v3 example_db unnameable))) =
     [(1, Folder), (2, Table), (3, Folder), (4, Table), (5, Table)]"
    by code_simp
  have 6: "map dt_sidebar_item_id
       (dynamic_tables (fst (POST_with createDynamicTable_v3 example_db unnameable))) = [2, 4]"
    by code_simp
  from 1 2 3 4 5 6 show ?thesis by blast
qed

section \<open>The sidebar tree: roots, children and orphans\<close>

lemma append_children_Nil: "append_children [] a obj = obj"
  by (simp add: append_children_def)

lemma append_children_Cons:
  "append_children (x # xs) a obj =
     append_children xs a
       (if si_parent_id x = Some a
        then obj\<lparr>node_children := node_children obj @ [si_id x]\<rparr> else obj)"
  by (simp add: append_children_def)

lemma fold_place_item:
  "fold place_item xs (m, roots) =
     (\<lambda>a. map_option (append_children xs a) (m a),
      roots @ map si_id (filter (\<lambda>i. si_parent_id i = None) xs))"
proof (induction xs arbitrary: m roots)
  case Nil
  have "(\<lambda>a. map_option (append_children [] a) (m a)) = m"
    by (rule ext) (simp add: append_children_Nil[abs_def] option.map_ident)
  then show ?case by simp
next
  case (Cons x xs)
  show ?case
  proof (cases "si_parent_id x")
    case None
    then have step: "place_item x (m, roots) = (m, roots @ [si_id x])"
      by (simp add: place_item_def)
    have "(\<lambda>a. map_option (append_children (x # xs) a) (m a)) =
          (\<lambda>a. map_option (append_children xs a) (m a))"
      by (rule ext) (simp add: append_children_Cons[abs_def] None)
    then show ?thesis
      by (simp add: step Cons.IH None)
  next
    case (Some p)
    show ?thesis
    proof (cases "m p")
      case None
      then have step: "place_item x (m, roots) = (m, roots)"
        by (simp add: place_item_def Some)
      have "map_option (append_children (x # xs) a) (m a) =
            map_option (append_children xs a) (m a)" for a
        by (cases "a = p") (simp_all add: None append_children_Cons[abs_def] Some)
      then show ?thesis
        by (simp add: step Cons.IH Some)
    next
      case (Some parent)
      let ?m1 = "m(p \<mapsto> parent\<lparr>node_children := node_children parent @ [si_id x]\<rparr>)"
      have step: "place_item x (m, roots) = (?m1, roots)"
        by (simp add: place_item_def \<open>si_parent_id x = Some p\<close> Some)
      have "map_option (append_children (x # xs) a) (m a) =
            map_option (append_children xs a) (?m1 a)" for a
        by (cases "a = p")
          (simp_all add: Some append_children_Cons[abs_def] \<open>si_parent_id x = Some p\<close>)
      then show ?thesis
        by (simp add: step Cons.IH \<open>si_parent_id x = Some p\<close>)
    qed
  qed
qed

lemma fold_set_item_other:
  "a \<notin> set (map si_id xs) \<Longrightarrow> fold set_item xs m a = m a"
  by (induction xs arbitrary: m) (simp_all add: set_item_def)

lemma fold_set_item_distinct:
  "distinct (map si_id xs) \<Longrightarrow> x \<in> set xs \<Longrightarrow>
   fold set_item xs m (si_id x) = Some \<lparr>node_item = x, node_children = []\<rparr>"
proof (induction xs arbitrary: m)
  case Nil
  then show ?case by simp
next
  case (Cons y ys)
  show ?case
  proof (cases "x = y")
    case True
    from Cons.prems(1) have "si_id y \<notin> set (map si_id ys)" by simp
    then have "fold set_item ys (set_item y m) (si_id y) = set_item y m (si_id y)"
      by (rule fold_set_item_other)
    also have "\<dots> = Some \<lparr>node_item = y, node_children = []\<rparr>"
      by (simp add: set_item_def)
    finally have "fold set_item (y # ys) m (si_id y) = Some \<lparr>node_item = y, node_children = []\<rparr>"
      by simp
    then show ?thesis unfolding True .
  next
    case False
    with Cons.prems have "x \<in> set ys" "distinct (map si_id ys)" by simp_all
    then show ?thesis by (simp add: Cons.IH)
  qed
qed

lemma fold_set_item_dom:
  "fold set_item xs m a = None \<longleftrightarrow> m a = None \<and> a \<notin> set (map si_id xs)"
  by (induction xs arbitrary: m) (auto simp: set_item_def)

lemma buildTree_roots:
  "fst (buildTree flat) = map si_id (filter (\<lambda>i. si_parent_id i = None) flat)"
  by (simp add: buildTree_def fold_place_item)

lemma buildTree_store:
  "snd (buildTree flat) a =
     map_option (append_children flat a) (fold set_item flat Map.empty a)"
  by (simp add: buildTree_def fold_place_item append_children_Nil)

lemma buildTree_object:
  assumes "distinct (map si_id flat)" "x \<in> set flat"
  shows "snd (buildTree flat) (si_id x) =
           Some \<lparr>node_item = x,
                 node_children = map si_id (filter (\<lambda>i. si_parent_id i = Some (si_id x)) flat)\<rparr>"
  by (simp add: buildTree_store fold_set_item_distinct[OF assms] append_children_def)

lemma buildTree_object_children:
  assumes "snd (buildTree flat) a = Some obj"
  shows "a \<in> set (map si_id flat) \<and>
         node_children obj = map si_id (filter (\<lambda>i. si_parent_id i = Some a) flat)"
proof -
  from assms obtain o0 where o0: "fold set_item flat Map.empty a = Some o0"
    and obj: "obj = append_children flat a o0"
    by (auto simp: buildTree_store)
  from o0 have a: "a \<in> set (map si_id flat)"
    using fold_set_item_dom[of flat Map.empty a] by auto
  then obtain x where x: "x \<in> set flat" "si_id x = a" by auto
  have "node_children o0 = []"
    using o0
  proof (induction flat arbitrary: o0 rule: rev_induct)
    case Nil
    then show ?case by simp
  next
    case (snoc y ys)
    then show ?case
      by (cases "si_id y = a") (auto simp: set_item_def)
  qed
  with obj a show ?thesis by (simp add: append_children_def)
qed

lemma length_filter_disjoint:
  "\<forall>x \<in> set xs. \<not> (P x \<and> Q x) \<Longrightarrow>
   length (filter P xs) + length (filter Q xs) = length (filter (\<lambda>x. P x \<or> Q x) xs)"
  by (induction xs) auto

lemma same_id_same_item:
  "distinct (map si_id flat) \<Longrightarrow> x \<in> set flat \<Longrightarrow> y \<in> set flat \<Longrightarrow> si_id x = si_id y \<Longrightarrow>
   x = y"
  by (meson distinct_map inj_onD)

lemma level_0_iff: "x \<in> set (level flat 0) \<longleftrightarrow> x \<in> set flat \<and> si_parent_id x = None"
  by simp

lemma level_Suc_iff:
  "x \<in> set (level flat (Suc k)) \<longleftrightarrow>
   x \<in> set flat \<and> (\<exists>y \<in> set (level flat k). si_parent_id x = Some (si_id y))"
  by (auto split: option.splits)

lemma level_subset: "x \<in> set (level flat k) \<Longrightarrow> x \<in> set flat"
  by (cases k) (simp_all split: option.splits)

lemma level_is_filter: "level flat k = filter (\<lambda>x. x \<in> set (level flat k)) flat"
proof (cases k)
  case 0
  show ?thesis unfolding 0 level.simps(1)
    by (rule filter_cong[OF refl]) simp
next
  case (Suc j)
  show ?thesis unfolding Suc level.simps(2)
    by (rule filter_cong[OF refl]) simp
qed

lemma distinct_level: "distinct (map si_id flat) \<Longrightarrow> distinct (map si_id (level flat k))"
  by (cases k) (simp_all add: distinct_map_filter)

lemma levels_disjoint:
  assumes d: "distinct (map si_id flat)"
  shows "x \<in> set (level flat j) \<Longrightarrow> x \<notin> set (level flat (j + Suc i))"
proof (induction j arbitrary: x)
  case 0
  then have "si_parent_id x = None" by simp
  then show ?case by (simp split: option.splits)
next
  case (Suc j)
  from Suc.prems obtain y where y: "y \<in> set (level flat j)" "si_parent_id x = Some (si_id y)"
    unfolding level_Suc_iff by blast
  show ?case
  proof
    assume "x \<in> set (level flat (Suc j + Suc i))"
    then have "x \<in> set (level flat (Suc (j + Suc i)))" by simp
    then obtain z where z: "z \<in> set (level flat (j + Suc i))" "si_parent_id x = Some (si_id z)"
      unfolding level_Suc_iff by blast
    from y(2) z(2) have "si_id y = si_id z" by simp
    with d level_subset[OF y(1)] level_subset[OF z(1)] have "y = z"
      by (rule same_id_same_item)
    with Suc.IH[OF y(1)] z(1) show False by simp
  qed
qed

lemma resolves_level: "resolves flat x \<longleftrightarrow> (\<exists>k. x \<in> set (level flat k))"
proof
  assume "resolves flat x"
  then show "\<exists>k. x \<in> set (level flat k)"
  proof (induction rule: resolves.induct)
    case (root x)
    then have "x \<in> set (level flat 0)" by simp
    then show ?case by blast
  next
    case (below x y)
    then obtain k where "y \<in> set (level flat k)" by blast
    with below(1,3) have "x \<in> set (level flat (Suc k))"
      unfolding level_Suc_iff by blast
    then show ?case by blast
  qed
next
  assume "\<exists>k. x \<in> set (level flat k)"
  then obtain k where "x \<in> set (level flat k)" by blast
  then show "resolves flat x"
  proof (induction k arbitrary: x)
    case 0
    then show ?case by (simp add: resolves.root)
  next
    case (Suc k)
    then obtain y where y: "x \<in> set flat" "y \<in> set (level flat k)" "si_parent_id x = Some (si_id y)"
      unfolding level_Suc_iff by blast
    from resolves.below[OF y(1) level_subset[OF y(2)] y(3) Suc.IH[OF y(2)]]
    show ?case .
  qed
qed

lemma level_empty_Suc: "level flat k = [] \<Longrightarrow> level flat (Suc k) = []"
  by (simp add: filter_empty_conv split: option.splits)

lemma level_empty_later: "level flat k = [] \<Longrightarrow> level flat (k + i) = []"
  by (induction i) (simp_all add: level_empty_Suc del: level.simps)

lemma sum_filter_disjoint:
  fixes g :: "'a \<Rightarrow> nat"
  shows "\<forall>x \<in> set xs. \<not> (P x \<and> Q x) \<Longrightarrow>
   sum_list (map g (filter P xs)) + sum_list (map g (filter Q xs)) =
   sum_list (map g (filter (\<lambda>x. P x \<or> Q x) xs))"
  by (induction xs) auto

lemma sum_over_children:
  fixes g :: "'a \<Rightarrow> nat"
  shows "distinct as \<Longrightarrow>
   sum_list (map (\<lambda>a. sum_list (map g (filter (\<lambda>x. f x = Some a) xs))) as) =
   sum_list (map g (filter (\<lambda>x. case f x of None \<Rightarrow> False | Some p \<Rightarrow> p \<in> set as) xs))"
proof (induction as)
  case Nil
  have "filter (\<lambda>x. case f x of None \<Rightarrow> False | Some p \<Rightarrow> p \<in> set []) xs = []"
    by (auto simp: filter_empty_conv split: option.splits)
  then show ?case by simp
next
  case (Cons a as)
  let ?P = "\<lambda>x. f x = Some a"
  let ?Q = "\<lambda>x. case f x of None \<Rightarrow> False | Some p \<Rightarrow> p \<in> set as"
  from Cons.prems have "\<forall>x \<in> set xs. \<not> (?P x \<and> ?Q x)"
    by (auto split: option.splits)
  then have "sum_list (map g (filter ?P xs)) + sum_list (map g (filter ?Q xs)) =
             sum_list (map g (filter (\<lambda>x. ?P x \<or> ?Q x) xs))"
    by (rule sum_filter_disjoint)
  moreover have "(\<lambda>x. ?P x \<or> ?Q x) =
                 (\<lambda>x. case f x of None \<Rightarrow> False | Some p \<Rightarrow> p \<in> set (a # as))"
    by (rule ext) (auto split: option.splits)
  ultimately show ?case
    using Cons by simp
qed

lemma sum_list_Suc:
  "sum_list (map (\<lambda>a. Suc (h a)) as) = length as + sum_list (map h as)"
  by (induction as) simp_all

lemma subtree_size_level_step:
  assumes d: "distinct (map si_id flat)"
  shows "sum_list (map (subtree_size flat (Suc n)) (map si_id (level flat k))) =
         length (level flat k) +
         sum_list (map (subtree_size flat n) (map si_id (level flat (Suc k))))"
proof -
  let ?as = "map si_id (level flat k)"
  let ?g = "\<lambda>x. subtree_size flat n (si_id x)"
  have "sum_list (map (subtree_size flat (Suc n)) ?as) =
        sum_list (map (\<lambda>a. Suc (sum_list (map ?g (filter (\<lambda>x. si_parent_id x = Some a) flat)))) ?as)"
    by (simp add: children_ids_def comp_def)
  also have "\<dots> = length ?as +
        sum_list (map (\<lambda>a. sum_list (map ?g (filter (\<lambda>x. si_parent_id x = Some a) flat))) ?as)"
    by (rule sum_list_Suc)
  also have "sum_list (map (\<lambda>a. sum_list (map ?g (filter (\<lambda>x. si_parent_id x = Some a) flat))) ?as) =
        sum_list (map ?g (filter (\<lambda>x. case si_parent_id x of None \<Rightarrow> False
                                       | Some p \<Rightarrow> p \<in> set ?as) flat))"
    by (rule sum_over_children[OF distinct_level[OF d]])
  also have "\<dots> = sum_list (map (subtree_size flat n) (map si_id (level flat (Suc k))))"
    by (simp add: comp_def)
  finally show ?thesis by (simp only: length_map)
qed

lemma subtree_size_levels:
  assumes d: "distinct (map si_id flat)"
  shows "sum_list (map (subtree_size flat n) (map si_id (level flat k))) =
         (\<Sum>j<n. length (level flat (k + j)))"
proof (induction n arbitrary: k)
  case 0
  have "sum_list (map (subtree_size flat 0) xs) = 0" for xs
    by (induction xs) simp_all
  then show ?case by simp
next
  case (Suc n)
  have "sum_list (map (subtree_size flat (Suc n)) (map si_id (level flat k))) =
        length (level flat k) + (\<Sum>j<n. length (level flat (Suc k + j)))"
    unfolding subtree_size_level_step[OF d] Suc.IH ..
  also have "\<dots> = (\<Sum>j<Suc n. length (level flat (k + j)))"
    by (simp only: sum.lessThan_Suc_shift add_0_right add_Suc_right add_Suc)
  finally show ?case .
qed

lemma levels_count:
  assumes d: "distinct (map si_id flat)"
  shows "(\<Sum>j<n. length (level flat j)) =
         length (filter (\<lambda>x. \<exists>j<n. x \<in> set (level flat j)) flat)"
proof (induction n)
  case 0
  then show ?case by simp
next
  case (Suc n)
  let ?P = "\<lambda>x. \<exists>j<n. x \<in> set (level flat j)"
  let ?Q = "\<lambda>x. x \<in> set (level flat n)"
  have disj: "\<forall>x \<in> set flat. \<not> (?P x \<and> ?Q x)"
  proof (intro ballI notI)
    fix x assume "?P x \<and> ?Q x"
    then obtain j where j: "j < n" "x \<in> set (level flat j)" and n: "x \<in> set (level flat n)"
      by blast
    from less_imp_Suc_add[OF j(1)] obtain i0 where "n = Suc (j + i0)" ..
    then have i: "n = j + Suc i0" by simp
    from levels_disjoint[OF d j(2), of i0] have "x \<notin> set (level flat n)"
      unfolding i .
    with n show False by (rule notE[rotated])
  qed
  have "(\<Sum>j<Suc n. length (level flat j)) =
        length (filter ?P flat) + length (level flat n)"
    by (simp only: sum.lessThan_Suc Suc.IH)
  also have "length (level flat n) = length (filter ?Q flat)"
    by (rule arg_cong[where f = length], rule level_is_filter)
  also have "length (filter ?P flat) + length (filter ?Q flat) =
             length (filter (\<lambda>x. ?P x \<or> ?Q x) flat)"
    using disj by (rule length_filter_disjoint)
  also have "(\<lambda>x. ?P x \<or> ?Q x) = (\<lambda>x. \<exists>j<Suc n. x \<in> set (level flat j))"
    by (rule ext) (auto simp: less_Suc_eq simp del: level.simps)
  finally show ?case .
qed

lemma level_nonempty_earlier: "level flat (k + i) \<noteq> [] \<Longrightarrow> level flat k \<noteq> []"
  using level_empty_later[of flat k i] by blast

lemma level_length_empty:
  assumes d: "distinct (map si_id flat)"
  shows "level flat (length flat) = []"
proof (rule ccontr)
  assume ne: "level flat (length flat) \<noteq> []"
  have "1 \<le> length (level flat j)" if "j < Suc (length flat)" for j
  proof -
    from that have "j \<le> length flat" by simp
    from le_Suc_ex[OF this] obtain i where "length flat = j + i" ..
    with ne have "level flat j \<noteq> []"
      using level_nonempty_earlier[of flat j i] by simp
    then show ?thesis by (cases "level flat j") simp_all
  qed
  then have "(\<Sum>j<Suc (length flat). 1) \<le> (\<Sum>j<Suc (length flat). length (level flat j))"
    by (intro sum_mono) simp
  then have "Suc (length flat) \<le> (\<Sum>j<Suc (length flat). length (level flat j))"
    by simp
  also have "\<dots> = length (filter (\<lambda>x. \<exists>j<Suc (length flat). x \<in> set (level flat j)) flat)"
    by (rule levels_count[OF d])
  also have "\<dots> \<le> length flat"
    by (rule length_filter_le)
  finally show False by simp
qed

lemma resolved_count:
  assumes d: "distinct (map si_id flat)"
  shows "(\<Sum>j<Suc (length flat). length (level flat j)) = length (filter (resolves flat) flat)"
proof -
  have "(\<exists>j<Suc (length flat). x \<in> set (level flat j)) \<longleftrightarrow> resolves flat x" for x
  proof
    assume "\<exists>j<Suc (length flat). x \<in> set (level flat j)"
    then show "resolves flat x" unfolding resolves_level by blast
  next
    assume "resolves flat x"
    then obtain k where k: "x \<in> set (level flat k)" unfolding resolves_level by blast
    have "k < Suc (length flat)"
    proof (rule ccontr)
      assume "\<not> k < Suc (length flat)"
      then have "length flat \<le> k" by simp
      from le_Suc_ex[OF this] obtain i where "k = length flat + i" ..
      with level_empty_later[OF level_length_empty[OF d], of i] k show False
        by simp
    qed
    with k show "\<exists>j<Suc (length flat). x \<in> set (level flat j)" by blast
  qed
  then show ?thesis
    unfolding levels_count[OF d] by simp
qed

lemma those_map_Some:
  "\<forall>x \<in> set xs. \<exists>t. f x = Some t \<Longrightarrow> those (map f xs) = Some (map (\<lambda>x. the (f x)) xs)"
  by (induction xs) auto

lemma those_map_SomeD:
  "those (map f xs) = Some ts \<Longrightarrow>
   ts = map (\<lambda>x. the (f x)) xs \<and> (\<forall>x \<in> set xs. \<exists>t. f x = Some t)"
  by (induction xs arbitrary: ts) (auto split: option.splits)

lemma buildTree_children_ids:
  "snd (buildTree flat) a = Some obj \<Longrightarrow> node_children obj = children_ids flat a"
  using buildTree_object_children[of flat a obj] by (simp add: children_ids_def)

lemma readout_nodes:
  "readout n (snd (buildTree flat)) a = Some t \<Longrightarrow> nodes t = subtree_size flat n a"
proof (induction n arbitrary: a t)
  case 0
  then show ?case by simp
next
  case (Suc n)
  let ?m = "snd (buildTree flat)"
  from Suc.prems obtain obj ts where obj: "?m a = Some obj"
    and ts: "those (map (readout n ?m) (node_children obj)) = Some ts"
    and t: "t = Node (node_item obj) ts"
    by (auto split: option.splits)
  from buildTree_children_ids[OF obj] have ch: "node_children obj = children_ids flat a" .
  from those_map_SomeD[OF ts]
  have ts': "ts = map (\<lambda>c. the (readout n ?m c)) (children_ids flat a)"
    and ok: "\<forall>c \<in> set (children_ids flat a). \<exists>t. readout n ?m c = Some t"
    unfolding ch by simp_all
  have "map nodes ts = map (subtree_size flat n) (children_ids flat a)"
    unfolding ts' map_map comp_def
  proof (rule map_cong[OF refl])
    fix c assume "c \<in> set (children_ids flat a)"
    with ok obtain t' where t': "readout n ?m c = Some t'" by blast
    from Suc.IH[OF t'] t' show "nodes (the (readout n ?m c)) = subtree_size flat n c"
      by simp
  qed
  then show ?case unfolding t by simp
qed

lemma readout_succeeds:
  assumes d: "distinct (map si_id flat)"
  shows "a \<in> set (map si_id (level flat k)) \<Longrightarrow> level flat (k + n) = [] \<Longrightarrow>
         \<exists>t. readout n (snd (buildTree flat)) a = Some t"
proof (induction n arbitrary: k a)
  case 0
  then show ?case by simp
next
  case (Suc n)
  let ?m = "snd (buildTree flat)"
  from Suc.prems(1) obtain y where y: "y \<in> set (level flat k)" "si_id y = a" by auto
  from level_subset[OF y(1)] have yf: "y \<in> set flat" .
  from buildTree_object[OF d yf] y(2) obtain obj where obj: "?m a = Some obj"
    by auto
  from buildTree_children_ids[OF obj] have ch: "node_children obj = children_ids flat a" .
  have "\<exists>t. readout n ?m c = Some t" if c: "c \<in> set (children_ids flat a)" for c
  proof -
    from c obtain z where z: "z \<in> set flat" "si_parent_id z = Some a" "si_id z = c"
      by (auto simp: children_ids_def)
    from z(1,2) y have "z \<in> set (level flat (Suc k))"
      unfolding level_Suc_iff by blast
    with z(3) have m: "c \<in> set (map si_id (level flat (Suc k)))" by auto
    from Suc.prems(2) have e: "level flat (Suc k + n) = []" by simp
    from Suc.IH[OF m e] show ?thesis .
  qed
  then have "those (map (readout n ?m) (node_children obj)) =
             Some (map (\<lambda>c. the (readout n ?m c)) (node_children obj))"
    unfolding ch by (intro those_map_Some) blast
  with obj show ?case by simp
qed

lemma forest_nodes:
  assumes d: "distinct (map si_id flat)"
  shows "\<exists>ts. forest flat = Some ts \<and>
              sum_list (map nodes ts) = length (filter (resolves flat) flat)"
proof -
  let ?m = "snd (buildTree flat)"
  let ?roots = "map si_id (level flat 0)"
  let ?n = "Suc (length flat)"
  have roots: "fst (buildTree flat) = ?roots"
    by (simp add: buildTree_roots)
  have f: "forest flat = those (map (readout ?n ?m) ?roots)"
    unfolding roots[symmetric] by (simp add: forest_def split: prod.splits)
  from level_empty_later[OF level_length_empty[OF d], of 1]
  have e: "level flat (0 + ?n) = []" by simp
  have ok: "\<forall>r \<in> set ?roots. \<exists>t. readout ?n ?m r = Some t"
    using readout_succeeds[OF d _ e] by blast
  from those_map_Some[OF ok]
  have ts: "forest flat = Some (map (\<lambda>r. the (readout ?n ?m r)) ?roots)"
    unfolding f .
  have "map nodes (map (\<lambda>r. the (readout ?n ?m r)) ?roots) = map (subtree_size flat ?n) ?roots"
    unfolding map_map comp_def
  proof (rule map_cong[OF refl])
    fix r assume "r \<in> set (level flat 0)"
    then have "si_id r \<in> set ?roots" by simp
    with ok obtain t where t: "readout ?n ?m (si_id r) = Some t" by blast
    from readout_nodes[OF t] t
    show "nodes (the (readout ?n ?m (si_id r))) = subtree_size flat ?n (si_id r)"
      by simp
  qed
  then have "sum_list (map nodes (map (\<lambda>r. the (readout ?n ?m r)) ?roots)) =
             sum_list (map (subtree_size flat ?n) ?roots)"
    by (rule arg_cong)
  also have "\<dots> = (\<Sum>j<?n. length (level flat (0 + j)))"
    by (rule subtree_size_levels[OF d])
  also have "\<dots> = length (filter (resolves flat) flat)"
    unfolding add_0 by (rule resolved_count[OF d])
  finally show ?thesis
    using ts by blast
qed

lemma orphan_not_resolved: "orphan flat x \<Longrightarrow> \<not> resolves flat x"
proof
  assume o: "orphan flat x" and r: "resolves flat x"
  from r show False
  proof (cases rule: resolves.cases)
    case root
    with o show False by (simp add: orphan_def)
  next
    case (below y)
    with o show False by (auto simp: orphan_def)
  qed
qed

text \<open>
  C4, as the code has it. For a list of items with distinct ids, the roots \<open>buildTree\<close>
  returns are the items whose \<open>parent_id\<close> is null, in the order of the list, and the
  object of every item has as children the items whose \<open>parent_id\<close> is its id. An item
  whose \<open>parent_id\<close> is the id of no item of the list is dropped: it is not a root, it
  is in no \<open>children\<close> array, and its chain of parents does not end at a root. Walking
  the result from the roots ends, and the forest it gives has as many nodes as the list
  has items whose chain of parents ends at a root; that is the number of items of the
  list when every chain does.
\<close>

theorem buildTree_drops_orphans:
  assumes d: "distinct (map si_id flat)"
  shows "fst (buildTree flat) = map si_id (filter (\<lambda>i. si_parent_id i = None) flat) \<and>
    (\<forall>x \<in> set flat. snd (buildTree flat) (si_id x) =
       Some \<lparr>node_item = x,
             node_children = map si_id (filter (\<lambda>i. si_parent_id i = Some (si_id x)) flat)\<rparr>) \<and>
    (\<forall>x \<in> set flat. orphan flat x \<longrightarrow>
       si_id x \<notin> set (fst (buildTree flat)) \<and>
       (\<forall>a obj. snd (buildTree flat) a = Some obj \<longrightarrow> si_id x \<notin> set (node_children obj)) \<and>
       \<not> resolves flat x) \<and>
    (\<exists>ts. forest flat = Some ts \<and>
          sum_list (map nodes ts) = length (filter (resolves flat) flat)) \<and>
    ((\<forall>x \<in> set flat. resolves flat x) \<longrightarrow>
       (\<exists>ts. forest flat = Some ts \<and> sum_list (map nodes ts) = length flat))"
proof -
  have 3: "si_id x \<notin> set (fst (buildTree flat)) \<and>
       (\<forall>a obj. snd (buildTree flat) a = Some obj \<longrightarrow> si_id x \<notin> set (node_children obj)) \<and>
       \<not> resolves flat x"
    if x: "x \<in> set flat" and o: "orphan flat x" for x
  proof -
    from o obtain p where p: "si_parent_id x = Some p" "p \<notin> set (map si_id flat)"
      by (auto simp: orphan_def split: option.splits)
    have r: "si_id x \<notin> set (fst (buildTree flat))"
    proof
      assume "si_id x \<in> set (fst (buildTree flat))"
      then obtain y where y: "y \<in> set flat" "si_parent_id y = None" "si_id y = si_id x"
        unfolding buildTree_roots by auto
      from same_id_same_item[OF d y(1) x y(3)] y(2) p(1) show False by simp
    qed
    have c: "si_id x \<notin> set (node_children obj)"
      if "snd (buildTree flat) a = Some obj" for a obj
    proof
      assume m: "si_id x \<in> set (node_children obj)"
      from buildTree_object_children[OF that]
      have a: "a \<in> set (map si_id flat)"
        and ch: "node_children obj = map si_id (filter (\<lambda>i. si_parent_id i = Some a) flat)"
        by simp_all
      from m obtain y where y: "y \<in> set flat" "si_parent_id y = Some a" "si_id y = si_id x"
        unfolding ch by auto
      from same_id_same_item[OF d y(1) x y(3)] y(2) p(1) have "p = a" by simp
      with a p(2) show False by simp
    qed
    from r c orphan_not_resolved[OF o] show ?thesis by blast
  qed
  from forest_nodes[OF d] obtain ts where
    ts: "forest flat = Some ts" "sum_list (map nodes ts) = length (filter (resolves flat) flat)"
    by blast
  have 5: "\<exists>ts. forest flat = Some ts \<and> sum_list (map nodes ts) = length flat"
    if "\<forall>x \<in> set flat. resolves flat x"
  proof -
    from that have "filter (resolves flat) flat = flat"
      by (simp add: filter_id_conv)
    with ts show ?thesis by simp
  qed
  from buildTree_roots[of flat] buildTree_object[OF d] 3 ts 5
  show ?thesis by blast
qed

theorem buildTree_drops_orphans_witness:
  "fst (buildTree with_orphan) = [1] \<and>
   orphan with_orphan (last with_orphan) \<and>
   \<not> resolves with_orphan (last with_orphan) \<and>
   (\<exists>ts. forest with_orphan = Some ts \<and> sum_list (map nodes ts) = 1) \<and>
   (\<exists>ts. forest example_items = Some ts \<and> sum_list (map nodes ts) = 4)"
proof -
  have d1: "distinct (map si_id with_orphan)"
    by (simp add: with_orphan_def)
  have d2: "distinct (map si_id example_items)"
    by (simp add: example_items_def)
  have l: "last with_orphan \<in> set with_orphan" "hd with_orphan \<in> set with_orphan"
    "si_parent_id (hd with_orphan) = None" "with_orphan = [hd with_orphan, last with_orphan]"
    by (simp_all add: with_orphan_def)
  have o: "orphan with_orphan (last with_orphan)"
    by (simp add: orphan_def with_orphan_def)
  have r: "map si_id (filter (\<lambda>i. si_parent_id i = None) with_orphan) = [1]"
    by (simp add: with_orphan_def)
  note w = buildTree_drops_orphans[OF d1]
  from w have 1: "fst (buildTree with_orphan) = [1]"
    unfolding r by blast
  from w l(1) o have 2: "\<not> resolves with_orphan (last with_orphan)"
    by blast
  from resolves.root[OF l(2,3)] have 3: "resolves with_orphan (hd with_orphan)" .
  have "filter (resolves with_orphan) with_orphan = [hd with_orphan]"
    by (subst l(4)) (simp add: 2 3)
  with w have 4: "\<exists>ts. forest with_orphan = Some ts \<and> sum_list (map nodes ts) = 1"
    by simp
  have m: "example_items ! 0 \<in> set example_items" "example_items ! 1 \<in> set example_items"
    "example_items ! 2 \<in> set example_items" "example_items ! 3 \<in> set example_items"
    and p: "si_parent_id (example_items ! 0) = None"
    "si_parent_id (example_items ! 1) = Some (si_id (example_items ! 0))"
    "si_parent_id (example_items ! 2) = Some (si_id (example_items ! 0))"
    "si_parent_id (example_items ! 3) = Some (si_id (example_items ! 2))"
    and all: "set example_items =
      {example_items ! 0, example_items ! 1, example_items ! 2, example_items ! 3}"
    by (simp_all add: example_items_def)
  from resolves.root[OF m(1) p(1)] have r0: "resolves example_items (example_items ! 0)" .
  from resolves.below[OF m(2) m(1) p(2) r0] have r1: "resolves example_items (example_items ! 1)" .
  from resolves.below[OF m(3) m(1) p(3) r0] have r2: "resolves example_items (example_items ! 2)" .
  from resolves.below[OF m(4) m(3) p(4) r2] have r3: "resolves example_items (example_items ! 3)" .
  have "\<forall>x \<in> set example_items. resolves example_items x"
    unfolding all using r0 r1 r2 r3 by blast
  with buildTree_drops_orphans[OF d2]
  have "\<exists>ts. forest example_items = Some ts \<and> sum_list (map nodes ts) = length example_items"
    by blast
  moreover have "length example_items = 4"
    by (simp add: example_items_def)
  ultimately have 5: "\<exists>ts. forest example_items = Some ts \<and> sum_list (map nodes ts) = 4"
    by (simp only:)
  from 1 o 2 4 5 show ?thesis by blast
qed

text \<open>
  C4 as stated fails on a list with an orphan. Of the two items of \<open>with_orphan\<close> only
  the root folder is in the forest: the table whose parent is not in the list is not
  treated as a root, and the forest has one node, not two.
\<close>

theorem orphan_not_root_counterexample:
  "forest with_orphan = Some [Node (hd with_orphan) []] \<and>
   sum_list (map nodes [Node (hd with_orphan) []]) = 1 \<and>
   length with_orphan = 2 \<and>
   si_parent_id (last with_orphan) = Some 9 \<and>
   fst (buildTree with_orphan) = [1] \<and>
   si_id (last with_orphan) = 2"
proof -
  have 1: "forest with_orphan = Some [Node (hd with_orphan) []]"
    by code_simp
  have 2: "fst (buildTree with_orphan) = [1]"
    by code_simp
  have 3: "length with_orphan = 2" "si_parent_id (last with_orphan) = Some 9"
    "si_id (last with_orphan) = 2"
    by (simp_all add: with_orphan_def)
  from 1 2 3 show ?thesis by simp
qed

end
